(* ===== verification/Prelude.thy ===== *)
theory Prelude
  imports Main
begin

text \<open>
  Shared vocabulary of the development: the names of the fact collections the component
  theories fill, the type of element identifiers, and generic lemmas on lists and maps
  that the component proofs use through \<open>simp add:\<close>.
\<close>

named_theorems table_simps
  "evaluation rules for the constant string-keyed tables of src/script.js"
named_theorems page_inv_simps
  "rules that unfold the page invariant into per-element facts"

type_synonym name = string
  \<comment> \<open>an element id, object key or key name of the script: a JS string\<close>

section \<open>Lists\<close>

lemma foldl_append_if_set:
  "set (foldl (\<lambda>acc x. if P x then acc @ [f x] else acc) acc xs) =
   set acc \<union> f ` {x \<in> set xs. P x}"
  by (induction xs arbitrary: acc) auto

lemma foldl_append_if_eq:
  "foldl (\<lambda>acc x. if P x then acc @ [f x] else acc) acc xs = acc @ map f (filter P xs)"
  by (induction xs arbitrary: acc) auto

section \<open>Maps\<close>

lemma map_upds_dom_same [simp]:
  "k \<in> dom m \<Longrightarrow> dom (m(k \<mapsto> v)) = dom m"
  by auto

lemma map_of_Some_in_set:
  "map_of xs k = Some v \<Longrightarrow> (k, v) \<in> set xs"
  by (rule map_of_SomeD)

lemma map_of_zip_replicate:
  "length xs = n \<Longrightarrow> x \<in> set xs \<Longrightarrow> map_of (zip xs (replicate n v)) x = Some v"
  by (induction xs arbitrary: n) (auto simp: Suc_length_conv)

end
