(* ===== verification/JS_Runtime.thy ===== *)
theory JS_Runtime
  imports Prelude
begin

text \<open>
  The parts of the JavaScript language and its standard library that src/script.js relies
  on, at the precision the script needs: a thrown \<open>TypeError\<close> as the left value of a
  sum, statement sequencing and the \<open>for ... of\<close> loop in that error monad, the
  insertion-ordered \<open>Set\<close> built from an array, numbers with \<open>NaN\<close>, the conversion
  of an integral number to a string, \<open>parseInt\<close> on decimal strings and string indexing.
\<close>

section \<open>Exceptions and sequencing\<close>

datatype js_error = TypeError string

type_synonym 'a js = "js_error + 'a"

definition bindE :: "'a js \<Rightarrow> ('a \<Rightarrow> 'b js) \<Rightarrow> 'b js" where
  "bindE m f = (case m of Inl e \<Rightarrow> Inl e | Inr x \<Rightarrow> f x)"

text \<open>\<open>for (let x of xs) body\<close> with a body that may throw: the first throw ends the loop.\<close>

fun forE :: "('s \<Rightarrow> 'a \<Rightarrow> 's js) \<Rightarrow> 's \<Rightarrow> 'a list \<Rightarrow> 's js" where
  "forE f s [] = Inr s"
| "forE f s (x # xs) = bindE (f s x) (\<lambda>s'. forE f s' xs)"

section \<open>new Set(array)\<close>

text \<open>
  A JS \<open>Set\<close> keeps the first occurrence of each value and iterates in insertion
  order; \<open>new Set(xs)\<close> inserts the elements of \<open>xs\<close> from left to right.
\<close>

definition set_add :: "'a list \<Rightarrow> 'a \<Rightarrow> 'a list" where
  "set_add acc x = (if x \<in> set acc then acc else acc @ [x])"

definition js_Set :: "'a list \<Rightarrow> 'a list" where
  "js_Set xs = foldl set_add [] xs"

section \<open>Numbers\<close>

text \<open>
  The script's numbers are integral, or \<open>NaN\<close> when \<open>parseInt\<close> finds no digit.
  Arithmetic with \<open>NaN\<close> gives \<open>NaN\<close>, and every comparison with it is false.
\<close>

datatype jsnum = Num int | NaN

fun js_add :: "jsnum \<Rightarrow> jsnum \<Rightarrow> jsnum" where
  "js_add (Num a) (Num b) = Num (a + b)"
| "js_add _ _ = NaN"

fun js_less :: "jsnum \<Rightarrow> jsnum \<Rightarrow> bool" where
  "js_less (Num a) (Num b) = (a < b)"
| "js_less _ _ = False"

fun nat_digits :: "nat \<Rightarrow> string" where
  "nat_digits n =
     (if n < 10 then [char_of (48 + n)] else nat_digits (n div 10) @ [char_of (48 + n mod 10)])"

declare nat_digits.simps [simp del]

fun js_to_string :: "jsnum \<Rightarrow> string" where
  "js_to_string (Num i) = (if i < 0 then ''-'' @ nat_digits (nat (- i)) else nat_digits (nat i))"
| "js_to_string NaN = ''NaN''"

section \<open>parseInt\<close>

text \<open>
  \<open>parseInt(s)\<close> with the default radix: leading white space is skipped, an optional
  sign is read, then the longest prefix of decimal digits; no digit gives \<open>NaN\<close>.
  (The \<open>0x\<close> prefix for hexadecimal is not modelled: the script only parses the
  strings \<open>padTime\<close> and the solve button write, which are decimal.)
\<close>

definition is_digit :: "char \<Rightarrow> bool" where
  "is_digit c \<longleftrightarrow> (48::nat) \<le> of_char c \<and> of_char c \<le> (57::nat)"

definition digit_value :: "char \<Rightarrow> nat" where
  "digit_value c = of_char c - 48"

definition js_space :: "char \<Rightarrow> bool" where
  "js_space c \<longleftrightarrow> of_char c \<in> {9, 10, 11, 12, 13, 32::nat}"

definition digits_nat :: "string \<Rightarrow> nat" where
  "digits_nat ds = foldl (\<lambda>acc c. 10 * acc + digit_value c) 0 ds"

definition parseInt :: "string \<Rightarrow> jsnum" where
  "parseInt s =
     (let s1 = dropWhile js_space s;
          neg = (s1 \<noteq> [] \<and> hd s1 = CHR ''-'');
          s2 = (if s1 \<noteq> [] \<and> (hd s1 = CHR ''-'' \<or> hd s1 = CHR ''+'') then tl s1 else s1);
          ds = takeWhile is_digit s2
      in if ds = [] then NaN
         else Num ((if neg then -1 else 1) * int (digits_nat ds)))"

section \<open>Strings\<close>

text \<open>\<open>s[i]\<close> reads a character, or \<open>undefined\<close> past the end.\<close>

definition js_index :: "string \<Rightarrow> nat \<Rightarrow> char option" where
  "js_index s i = (if i < length s then Some (s ! i) else None)"

section \<open>Lemmas on the runtime model\<close>

lemma bindE_Inl [simp]: "bindE (Inl e) f = Inl e"
  and bindE_Inr [simp]: "bindE (Inr x) f = f x"
  by (simp_all add: bindE_def)

lemma bindE_eq_Inr:
  "bindE m f = Inr y \<longleftrightarrow> (\<exists>x. m = Inr x \<and> f x = Inr y)"
  by (cases m) (simp_all add: bindE_def)

lemma forE_append:
  "forE f s (xs @ ys) = bindE (forE f s xs) (\<lambda>s'. forE f s' ys)"
  by (induction xs arbitrary: s) (simp_all add: bindE_def split: sum.splits)

lemma set_foldl_set_add: "set (foldl set_add acc xs) = set acc \<union> set xs"
  by (induction xs arbitrary: acc) (auto simp: set_add_def)

lemma distinct_foldl_set_add: "distinct acc \<Longrightarrow> distinct (foldl set_add acc xs)"
  by (induction xs arbitrary: acc) (auto simp: set_add_def)

lemma set_js_Set [simp]: "set (js_Set xs) = set xs"
  by (simp add: js_Set_def set_foldl_set_add)

lemma distinct_js_Set [simp]: "distinct (js_Set xs)"
  by (simp add: js_Set_def distinct_foldl_set_add)

subsection \<open>parseInt reads back what number-to-string writes\<close>

lemma digit_char_of: "k < 10 \<Longrightarrow> is_digit (char_of (48 + k)) \<and> digit_value (char_of (48 + k)) = k"
  by (simp add: is_digit_def digit_value_def)

lemma digits_nat_snoc: "digits_nat (ds @ [c]) = 10 * digits_nat ds + digit_value c"
  by (simp add: digits_nat_def)

lemma nat_digits_props: "nat_digits n \<noteq> [] \<and> (\<forall>c \<in> set (nat_digits n). is_digit c) \<and> digits_nat (nat_digits n) = n"
proof (induction n rule: nat_digits.induct)
  case (1 n)
  show ?case
  proof (cases "n < 10")
    case True
    then show ?thesis using digit_char_of[of n] by (simp add: nat_digits.simps digits_nat_def)
  next
    case False
    with "1.IH" show ?thesis using digit_char_of[of "n mod 10"]
      by (simp add: nat_digits.simps[of n] digits_nat_snoc)
  qed
qed

lemma digit_not_sign: "is_digit c \<Longrightarrow> \<not> js_space c \<and> c \<noteq> CHR ''-'' \<and> c \<noteq> CHR ''+''"
  by (auto simp: is_digit_def js_space_def)

lemma parseInt_digits:
  assumes "ds \<noteq> []" "\<forall>c \<in> set ds. is_digit c"
  shows "parseInt ds = Num (int (digits_nat ds))"
proof -
  from assms obtain c cs where ds: "ds = c # cs" and "is_digit c" by (cases ds) auto
  then have "\<not> js_space c" "c \<noteq> CHR ''-''" "c \<noteq> CHR ''+''" using digit_not_sign by auto
  with assms ds show ?thesis by (simp add: parseInt_def takeWhile_eq_all_conv[THEN iffD2])
qed

lemma parseInt_to_string: "0 \<le> i \<Longrightarrow> parseInt (js_to_string (Num i)) = Num i"
  using nat_digits_props[of "nat i"] by (simp add: parseInt_digits)

lemma digits_nat_zero_Cons: "digits_nat (CHR ''0'' # ds) = digits_nat ds"
  by (simp add: digits_nat_def digit_value_def)

lemma parseInt_zero_to_string: "0 \<le> i \<Longrightarrow> parseInt (CHR ''0'' # js_to_string (Num i)) = Num i"
proof -
  assume "0 \<le> i"
  moreover have "is_digit (CHR ''0'')" by (simp add: is_digit_def)
  ultimately show ?thesis using nat_digits_props[of "nat i"]
    by (simp add: parseInt_digits digits_nat_zero_Cons del: nat_digits.simps)
qed

end
