(* ===== verification/Topology.thy ===== *)
theory Topology
  imports JS_Runtime
begin

text \<open>
  The static tables of src/script.js: the ids of the 18 clocks, 16 buttons and 8 pins
  (lines 49--59), the name predicates \<open>isBack\<close> and \<open>isCorner\<close> (86--92), the
  pin-to-clock graph and its lookup (133--146), and the front/back complement of a clock
  name (148--154). Everything here is a pure function of strings; the lemmas show that
  the string conventions of the script's comment (line 10--18) hold for every id.
\<close>

section \<open>Element ids\<close>

definition clkNames :: "name list" where
  "clkNames = [''cul'', ''cur'', ''cdr'', ''cdl'', ''cu'', ''cr'', ''cd'', ''cl'', ''cc'',
    ''bcul'', ''bcur'', ''bcdr'', ''bcdl'', ''bcu'', ''bcr'', ''bcd'', ''bcl'', ''bcc'']"

definition btnNames :: "name list" where
  "btnNames = [''bulm'', ''bulp'', ''burm'', ''burp'', ''bdrm'', ''bdrp'', ''bdlm'', ''bdlp'',
    ''bbulm'', ''bbulp'', ''bburm'', ''bburp'', ''bbdrm'', ''bbdrp'', ''bbdlm'', ''bbdlp'']"

definition pinNames :: "name list" where
  "pinNames = [''pul'', ''pur'', ''pdr'', ''pdl'', ''bpul'', ''bpur'', ''bpdr'', ''bpdl'']"

section \<open>Name predicates\<close>

text \<open>\<open>clkName[0] === "b"\<close>: the first character, \<open>undefined\<close> for the empty string.\<close>

definition isBack :: "name \<Rightarrow> bool" where
  "isBack clkName \<longleftrightarrow> js_index clkName 0 = Some (CHR ''b'')"

definition isCorner :: "name \<Rightarrow> bool" where
  "isCorner clkName \<longleftrightarrow>
     (length clkName = 3 \<and> js_index clkName 0 = Some (CHR ''c'')) \<or> length clkName = 4"

section \<open>The pin graph\<close>

definition pinClkGraph :: "(name \<times> name list) list" where
  "pinClkGraph = [
     (''pul'', [''cul'', ''cu'', ''cc'', ''cl'']),
     (''pur'', [''cu'', ''cur'', ''cr'', ''cc'']),
     (''pdr'', [''cc'', ''cr'', ''cdr'', ''cd'']),
     (''pdl'', [''cl'', ''cc'', ''cd'', ''cdl'']),
     (''bpul'', [''bcul'', ''bcu'', ''bcc'', ''bcl'']),
     (''bpur'', [''bcu'', ''bcur'', ''bcr'', ''bcc'']),
     (''bpdr'', [''bcc'', ''bcr'', ''bcdr'', ''bcd'']),
     (''bpdl'', [''bcl'', ''bcc'', ''bcd'', ''bcdl''])]"

text \<open>\<open>pinClkGraph[pinName]\<close>: \<open>undefined\<close> (here \<open>None\<close>) for a key the object lacks.\<close>

definition getNeighborsOfPin :: "name \<Rightarrow> name list option" where
  "getNeighborsOfPin pinName = map_of pinClkGraph pinName"

definition getComplementOfClk :: "name \<Rightarrow> name" where
  "getComplementOfClk clkName = (if isBack clkName then drop 1 clkName else ''b'' @ clkName)"

lemmas [table_simps] = clkNames_def btnNames_def pinNames_def pinClkGraph_def
  getNeighborsOfPin_def isBack_def isCorner_def getComplementOfClk_def js_index_def

section \<open>Lemmas\<close>

lemma clkNames_distinct: "distinct clkNames \<and> length clkNames = 18" by (simp add: table_simps)
lemma clkNames_corners: "filter isCorner clkNames = [''cul'', ''cur'', ''cdr'', ''cdl'', ''bcul'', ''bcur'', ''bcdr'', ''bcdl'']"
  by (simp add: table_simps) 
lemma getComplementOfClk_clkNames: "c \<in> set clkNames \<Longrightarrow> getComplementOfClk c \<in> set clkNames \<and> (isCorner (getComplementOfClk c) \<longleftrightarrow> isCorner c)
  \<and> (isBack (getComplementOfClk c) \<longleftrightarrow> \<not> isBack c) \<and> getComplementOfClk (getComplementOfClk c) = c"
  by (simp add: table_simps, elim disjE; simp)
lemma getNeighborsOfPin_pinNames: "p \<in> set pinNames \<Longrightarrow> \<exists>ns. getNeighborsOfPin p = Some ns \<and> length ns = 4 \<and> distinct ns \<and> set ns \<subseteq> set clkNames
  \<and> (\<forall>n \<in> set ns. isBack n \<longleftrightarrow> isBack p) \<and> length (filter isCorner ns) = 1"
  unfolding pinNames_def by (simp add: table_simps, elim disjE; simp)
lemma clkNames_covered: "set clkNames = set (concat (map (the \<circ> getNeighborsOfPin) pinNames))"
  by code_simp
end
