(* ===== verification/Page.thy ===== *)
theory Page
  imports Topology
begin

text \<open>
  The mutable state of the script is the DOM it reads and writes: the \<open>innerHTML\<close> of
  the clock elements, the \<open>checked\<close> flag of the pin checkboxes, the border colour
  of the two face elements \<open>frontFace\<close> and \<open>backFace\<close> (lines 65--66), the id of
  the element holding keyboard focus (\<open>document.activeElement\<close>, \<open>None\<close> for the
  body), the global
  \<open>controllingFront\<close> (line 273) and the alerts scheduled by \<open>applyMove\<close>. The
  objects \<open>clk\<close> and \<open>pin\<close> of lines 61--63 map each id to its element; reading a
  property of a missing element throws a \<open>TypeError\<close>, so every access is a
  \<open>js\<close> value. The page invariant (\<open>page_ok\<close>) is stated in the component
  theories that need it.
\<close>

record page =
  clk :: "name \<rightharpoonup> string"
  pin :: "name \<rightharpoonup> bool"
  border :: "name \<rightharpoonup> string"
  activeElement :: "name option"
  controllingFront :: bool
  alerts :: "string list"

definition get_innerHTML :: "page \<Rightarrow> name \<Rightarrow> string js" where
  "get_innerHTML s n =
     (case clk s n of None \<Rightarrow> Inl (TypeError ''clk[name] is undefined'') | Some h \<Rightarrow> Inr h)"

definition set_innerHTML :: "page \<Rightarrow> name \<Rightarrow> string \<Rightarrow> page js" where
  "set_innerHTML s n h =
     (if n \<in> dom (clk s) then Inr (s\<lparr>clk := (clk s)(n \<mapsto> h)\<rparr>)
      else Inl (TypeError ''clk[name] is undefined''))"

definition get_checked :: "page \<Rightarrow> name \<Rightarrow> bool js" where
  "get_checked s n =
     (case pin s n of None \<Rightarrow> Inl (TypeError ''pin[name] is undefined'') | Some b \<Rightarrow> Inr b)"

definition set_checked :: "page \<Rightarrow> name \<Rightarrow> bool \<Rightarrow> page js" where
  "set_checked s n b =
     (if n \<in> dom (pin s) then Inr (s\<lparr>pin := (pin s)(n \<mapsto> b)\<rparr>)
      else Inl (TypeError ''pin[name] is undefined''))"

text \<open>\<open>frontFace.style.borderColor = c\<close>: a write through \<open>null\<close> when
  \<open>getElementById\<close> found no element with that id.\<close>

definition set_borderColor :: "page \<Rightarrow> name \<Rightarrow> string \<Rightarrow> page js" where
  "set_borderColor s n c =
     (if n \<in> dom (border s) then Inr (s\<lparr>border := (border s)(n \<mapsto> c)\<rparr>)
      else Inl (TypeError ''Cannot read properties of null (reading style)''))"

text \<open>\<open>el.blur()\<close>: focus leaves the element if it has it, and goes to the body.\<close>

definition blur :: "page \<Rightarrow> name \<Rightarrow> page" where
  "blur s n = (if activeElement s = Some n then s\<lparr>activeElement := None\<rparr> else s)"

text \<open>The browser's part of a mouse click: the clicked element takes the keyboard focus
  before its handler runs.\<close>

definition focus :: "page \<Rightarrow> name \<Rightarrow> page" where
  "focus s n = s\<lparr>activeElement := Some n\<rparr>"

lemma get_innerHTML_Some [simp]: "clk s n = Some h \<Longrightarrow> get_innerHTML s n = Inr h"
  and get_innerHTML_None [simp]: "clk s n = None \<Longrightarrow> \<exists>e. get_innerHTML s n = Inl e"
  by (simp_all add: get_innerHTML_def)

lemma set_innerHTML_dom [simp]:
  "n \<in> dom (clk s) \<Longrightarrow> set_innerHTML s n h = Inr (s\<lparr>clk := (clk s)(n \<mapsto> h)\<rparr>)"
  by (simp add: set_innerHTML_def)

lemma get_checked_Some [simp]: "pin s n = Some b \<Longrightarrow> get_checked s n = Inr b"
  by (simp add: get_checked_def)

lemma set_checked_dom [simp]:
  "n \<in> dom (pin s) \<Longrightarrow> set_checked s n b = Inr (s\<lparr>pin := (pin s)(n \<mapsto> b)\<rparr>)"
  by (simp add: set_checked_def)

lemma blur_fields [simp]:
  "clk (blur s n) = clk s" "pin (blur s n) = pin s" "border (blur s n) = border s"
  "controllingFront (blur s n) = controllingFront s" "alerts (blur s n) = alerts s"
  by (simp_all add: blur_def)

lemma focus_fields [simp]:
  "clk (focus s n) = clk s" "pin (focus s n) = pin s" "border (focus s n) = border s"
  "controllingFront (focus s n) = controllingFront s" "alerts (focus s n) = alerts s"
  "activeElement (focus s n) = Some n"
  by (simp_all add: focus_def)

lemma blur_activeElement:
  "activeElement (blur s n) = (if activeElement s = Some n then None else activeElement s)"
  by (simp add: blur_def)

lemma set_borderColor_dom [simp]:
  "n \<in> dom (border s) \<Longrightarrow> set_borderColor s n c = Inr (s\<lparr>border := (border s)(n \<mapsto> c)\<rparr>)"
  by (simp add: set_borderColor_def)

end
