(* ===== verification/Puzzle.thy ===== *)
theory Puzzle
  imports Prelude
begin

text \<open>
  The abstract specification of the puzzle, written over closed enumerations instead of
  the script's strings: two faces, four corners, nine dial spots per face, a dial value
  per face and spot, and one two-position pin per corner (the raised face). A press at
  corner \<open>k\<close> engages the pins raised on the face of \<open>k\<close>'s pin, moves the dials
  around them, drags every engaged corner dial's counterpart on the other face, and
  turns front dials by the direction and back dials by its negation, modulo 12.
  Nothing here mentions JavaScript; Refinement.thy shows that the script implements it.
\<close>

section \<open>Definitions\<close>

datatype face = Front | Back

datatype corner = UL | UR | DR | DL

datatype spot = Corner corner | EdgeU | EdgeR | EdgeD | EdgeL | Centre

instantiation face :: enum
begin
definition "enum_face = [Front, Back]"
definition "enum_all_face P \<longleftrightarrow> P Front \<and> P Back"
definition "enum_ex_face P \<longleftrightarrow> P Front \<or> P Back"
instance
proof
  have univ: "(UNIV :: face set) = {Front, Back}"
    using face.exhaust by auto
  show "(UNIV :: face set) = set enum_class.enum" by (simp add: enum_face_def univ)
  show "distinct (enum_class.enum :: face list)" by (simp add: enum_face_def)
  show "enum_class.enum_all P = Ball UNIV P" for P :: "face \<Rightarrow> bool"
    by (simp add: enum_all_face_def univ)
  show "enum_class.enum_ex P = Bex UNIV P" for P :: "face \<Rightarrow> bool"
    by (simp add: enum_ex_face_def univ)
qed
end

instantiation corner :: enum
begin
definition "enum_corner = [UL, UR, DR, DL]"
definition "enum_all_corner P \<longleftrightarrow> P UL \<and> P UR \<and> P DR \<and> P DL"
definition "enum_ex_corner P \<longleftrightarrow> P UL \<or> P UR \<or> P DR \<or> P DL"
instance
proof
  have univ: "(UNIV :: corner set) = {UL, UR, DR, DL}"
    using corner.exhaust by auto
  show "(UNIV :: corner set) = set enum_class.enum" by (simp add: enum_corner_def univ)
  show "distinct (enum_class.enum :: corner list)" by (simp add: enum_corner_def)
  show "enum_class.enum_all P = Ball UNIV P" for P :: "corner \<Rightarrow> bool"
    by (simp add: enum_all_corner_def univ)
  show "enum_class.enum_ex P = Bex UNIV P" for P :: "corner \<Rightarrow> bool"
    by (simp add: enum_ex_corner_def univ)
qed
end

definition spots :: "spot list" where
  "spots = [Corner UL, Corner UR, Corner DR, Corner DL, EdgeU, EdgeR, EdgeD, EdgeL, Centre]"

instantiation spot :: enum
begin
definition "enum_spot = spots"
definition "enum_all_spot P \<longleftrightarrow> list_all P spots"
definition "enum_ex_spot P \<longleftrightarrow> list_ex P spots"
instance
proof
  have univ: "(UNIV :: spot set) = set spots"
  proof (rule UNIV_eq_I)
    fix x :: spot show "x \<in> set spots"
    proof (cases x)
      case (Corner c)
      then show ?thesis by (cases c) (simp_all add: spots_def)
    qed (simp_all add: spots_def)
  qed
  show "(UNIV :: spot set) = set enum_class.enum" by (simp add: enum_spot_def univ)
  show "distinct (enum_class.enum :: spot list)" by (simp add: enum_spot_def spots_def)
  show "enum_class.enum_all P = Ball UNIV P" for P :: "spot \<Rightarrow> bool"
    by (simp add: enum_all_spot_def univ list_all_iff)
  show "enum_class.enum_ex P = Bex UNIV P" for P :: "spot \<Rightarrow> bool"
    by (simp add: enum_ex_spot_def univ list_ex_iff)
qed
end

record puzzle =
  dial :: "face \<Rightarrow> spot \<Rightarrow> int"
  raised :: "corner \<Rightarrow> face"

definition other :: "face \<Rightarrow> face" where
  "other f = (case f of Front \<Rightarrow> Back | Back \<Rightarrow> Front)"

fun pin_spots :: "corner \<Rightarrow> spot list" where
  "pin_spots UL = [Corner UL, EdgeU, Centre, EdgeL]"
| "pin_spots UR = [EdgeU, Corner UR, EdgeR, Centre]"
| "pin_spots DR = [Centre, EdgeR, Corner DR, EdgeD]"
| "pin_spots DL = [EdgeL, Centre, EdgeD, Corner DL]"

text \<open>The dials around the raised pins of the acting face (spec section 4.3, steps 1--3).\<close>

definition engaged :: "puzzle \<Rightarrow> corner \<Rightarrow> (face \<times> spot) set" where
  "engaged p k =
     {(raised p k, sp) | k' sp. raised p k' = raised p k \<and> sp \<in> set (pin_spots k')}"

text \<open>Step 4: every engaged corner dial drags its counterpart on the other face.\<close>

definition resolve :: "puzzle \<Rightarrow> corner \<Rightarrow> (face \<times> spot) set" where
  "resolve p k = engaged p k \<union> {(other f, Corner c) | f c. (f, Corner c) \<in> engaged p k}"

definition cyc12 :: "int \<Rightarrow> int \<Rightarrow> int" where
  "cyc12 v d = (v - 1 + d) mod 12 + 1"

definition face_dir :: "face \<Rightarrow> int \<Rightarrow> int" where
  "face_dir f d = (case f of Front \<Rightarrow> d | Back \<Rightarrow> - d)"

definition move :: "puzzle \<Rightarrow> corner \<Rightarrow> int \<Rightarrow> puzzle" where
  "move p k d =
     p\<lparr>dial := \<lambda>f sp. if (f, sp) \<in> resolve p k then cyc12 (dial p f sp) (face_dir f d)
                      else dial p f sp\<rparr>"

definition solved :: "puzzle \<Rightarrow> bool" where
  "solved p \<longleftrightarrow> (\<forall>f sp. dial p f sp = 12)"

definition dials_ok :: "puzzle \<Rightarrow> bool" where
  "dials_ok p \<longleftrightarrow> (\<forall>f sp. 1 \<le> dial p f sp \<and> dial p f sp \<le> 12)"

definition flip_pin :: "puzzle \<Rightarrow> corner \<Rightarrow> puzzle" where
  "flip_pin p k = p\<lparr>raised := (raised p)(k := other (raised p k))\<rparr>"

section \<open>Lemmas\<close>

lemma cyc12_range: "1 \<le> cyc12 v d \<and> cyc12 v d \<le> 12"
  by (simp add: cyc12_def)

lemma cyc12_add: "cyc12 (cyc12 v a) b = cyc12 v (a + b)"
  by (simp add: cyc12_def mod_add_left_eq add.assoc)

lemma cyc12_period: "1 \<le> v \<Longrightarrow> v \<le> 12 \<Longrightarrow> cyc12 v (12 * k) = v"
  by (simp add: cyc12_def)

lemma other_other [simp]: "other (other f) = f"
  by (cases f) (simp_all add: other_def)

lemma other_neq [simp]: "other f \<noteq> f" "f \<noteq> other f"
  by (cases f; simp add: other_def)+

lemma face_cases_other: "g = f \<or> g = other f"
  by (cases f; cases g) (simp_all add: other_def)

lemma corner_in_pin_spots: "Corner c \<in> set (pin_spots k) \<longleftrightarrow> k = c"
  by (cases k; cases c) simp_all

lemma mem_engaged:
  "(f, sp) \<in> engaged p k \<longleftrightarrow> f = raised p k \<and> (\<exists>k'. raised p k' = raised p k \<and> sp \<in> set (pin_spots k'))"
  by (auto simp: engaged_def)

lemma mem_resolve:
  "(f, sp) \<in> resolve p k \<longleftrightarrow>
   (f, sp) \<in> engaged p k \<or> (\<exists>c. sp = Corner c \<and> (other f, Corner c) \<in> engaged p k)"
  by (auto simp: resolve_def)

lemma resolve_pressed: "(Front, Corner k) \<in> resolve p k \<and> (Back, Corner k) \<in> resolve p k"
proof -
  have e: "(raised p k, Corner k) \<in> engaged p k" by (auto simp: mem_engaged corner_in_pin_spots)
  then have "(other (raised p k), Corner k) \<in> resolve p k" by (auto simp: resolve_def)
  moreover have "(raised p k, Corner k) \<in> resolve p k" using e by (simp add: resolve_def)
  ultimately show ?thesis using face_cases_other[of Front "raised p k"] face_cases_other[of Back "raised p k"]
    by (cases "raised p k") (auto simp: other_def)
qed

lemma raised_move [simp]: "raised (move p k d) = raised p"
  by (simp add: move_def)

lemma resolve_dial_upd [simp]: "resolve (p\<lparr>dial := x\<rparr>) k = resolve p k"
  by (simp add: resolve_def engaged_def)

lemma face_dir_neg: "face_dir f (- d) = - face_dir f d"
  by (cases f) (simp_all add: face_dir_def)

lemma cyc12_zero: "1 \<le> v \<Longrightarrow> v \<le> 12 \<Longrightarrow> cyc12 v 0 = v"
  using cyc12_period[of v 0] by simp

lemma move_dials_ok: "dials_ok p \<Longrightarrow> dials_ok (move p k d)"
  by (simp add: dials_ok_def move_def cyc12_range)

lemma move_inverse: "dials_ok p \<Longrightarrow> move (move p k d) k (- d) = p"
  by (auto simp: move_def dials_ok_def cyc12_add face_dir_neg cyc12_zero fun_eq_iff)

lemma move_commute: "move (move p k d) k' d' = move (move p k' d') k d"
  by (auto simp: move_def cyc12_add add.commute fun_eq_iff)

lemma all_corner_iff: "(\<forall>k. P k) \<longleftrightarrow> P UL \<and> P UR \<and> P DR \<and> P DL"
  by (metis corner.exhaust)

lemma spot_covered: "\<exists>k. sp \<in> set (pin_spots k)"
proof (cases sp)
  case (Corner c)
  then show ?thesis using corner_in_pin_spots by blast
qed (auto intro: exI[of _ UL] exI[of _ UR] exI[of _ DR])

lemma cyc12_moves: "1 \<le> v \<Longrightarrow> v \<le> 12 \<Longrightarrow> d \<in> {1, -1} \<Longrightarrow> cyc12 v d \<noteq> v"
  by (auto simp: cyc12_def; presburger)

lemma face_dir_unit: "d \<in> {1, -1} \<Longrightarrow> face_dir f d \<in> {1, -1}"
  by (cases f) (auto simp: face_dir_def)

lemma move_changes:
  assumes "dials_ok p" "d \<in> {1, -1}"
  shows "dial (move p k d) f sp \<noteq> dial p f sp \<longleftrightarrow> (f, sp) \<in> resolve p k"
  using assms cyc12_moves[of "dial p f sp" "face_dir f d"] face_dir_unit[OF assms(2), of f]
  by (auto simp: move_def dials_ok_def)

lemma resolve_uniform:
  assumes "\<forall>k'. raised p k' = raised p k"
  shows "(g, sp) \<in> resolve p k \<longleftrightarrow> g = raised p k \<or> (\<exists>c. sp = Corner c)"
proof -
  have eng: "(f, sp') \<in> engaged p k \<longleftrightarrow> f = raised p k" for f sp'
    using assms spot_covered[of sp'] by (auto simp: mem_engaged)
  show ?thesis using face_cases_other[of g "raised p k"]
    by (auto simp: mem_resolve eng)
qed

end
