(* ===== verification/Dials.thy ===== *)
theory Dials
  imports Page Puzzle
begin

text \<open>
  The clock faces (src/script.js lines 94--112): \<open>padTime\<close> writes a number as the
  text of a clock, \<open>incrementClk\<close> reads the text back with \<open>parseInt\<close>, adds the
  direction (negated on the back face), wraps 13 to 1 and 0 to 12, and writes the
  result. A clock text is well formed when it is one of the twelve texts \<open>padTime\<close>
  writes for 1..12; on well-formed texts the increment is addition modulo 12 and
  twelve increments in one direction restore the clock.
\<close>

section \<open>Definitions\<close>

text \<open>
  \<open>padTime\<close> returns the string \<open>"0" + num\<close> or the number itself; its only
  caller assigns the result to \<open>innerHTML\<close>, which converts it to its string, so the
  model returns that string.
\<close>

definition padTime :: "jsnum \<Rightarrow> string" where
  "padTime num = (if js_less num (Num 10) then ''0'' @ js_to_string num else js_to_string num)"

definition incrementClk :: "page \<Rightarrow> name \<Rightarrow> int \<Rightarrow> page js" where
  "incrementClk s clkName direction =
     (let direction = (if isBack clkName then direction * -1 else direction) in
      bindE (get_innerHTML s clkName) (\<lambda>h.
        let newNum = js_add (parseInt h) (Num direction);
            newNum = (if js_less (Num 12) newNum then Num 1
                      else if js_less newNum (Num 1) then Num 12 else newNum)
        in set_innerHTML s clkName (padTime newNum)))"

text \<open>Specification side: the twelve texts a clock can show.\<close>

definition clockFaces :: "string list" where
  "clockFaces = map (\<lambda>n. padTime (Num n)) [1..12]"

definition clock_ok :: "string \<Rightarrow> bool" where
  "clock_ok h \<longleftrightarrow> h \<in> set clockFaces"

definition dial_value :: "string \<Rightarrow> int" where
  "dial_value h = (case parseInt h of Num i \<Rightarrow> i | NaN \<Rightarrow> 0)"

definition clocks_ok :: "page \<Rightarrow> bool" where
  "clocks_ok s \<longleftrightarrow> dom (clk s) = set clkNames \<and> (\<forall>c \<in> set clkNames. clock_ok (the (clk s c)))"

text \<open>The text of clock \<open>c\<close> showing \<open>h\<close> after one increment in direction \<open>d\<close>.\<close>

definition bumped :: "string \<Rightarrow> name \<Rightarrow> int \<Rightarrow> string" where
  "bumped h c d = padTime (Num (cyc12 (dial_value h) (if isBack c then - d else d)))"

section \<open>Lemmas\<close>

lemma padTime_roundtrip: "0 \<le> n \<Longrightarrow> parseInt (padTime (Num n)) = Num n"
  by (simp add: padTime_def parseInt_to_string parseInt_zero_to_string del: js_to_string.simps)

lemma clock_ok_iff: "clock_ok h \<longleftrightarrow> (\<exists>n. 1 \<le> n \<and> n \<le> 12 \<and> h = padTime (Num n))"
  by (auto simp: clock_ok_def clockFaces_def)

lemma dial_value_padTime [simp]: "0 \<le> n \<Longrightarrow> dial_value (padTime (Num n)) = n"
  by (simp add: dial_value_def padTime_roundtrip)

lemma incrementClk_wrap_eq: "1 \<le> v \<Longrightarrow> v \<le> 12 \<Longrightarrow> d \<in> {1, -1} \<Longrightarrow>
  (if 12 < v + d then 1 else if v + d < 1 then 12 else v + d) = cyc12 v d"
  by (auto simp: cyc12_def; presburger)

lemma incrementClk_ok:
  assumes "clk s c = Some (padTime (Num v))" "1 \<le> v" "v \<le> 12" "d \<in> {1, -1}"
  shows "incrementClk s c d =
    Inr (s\<lparr>clk := (clk s)(c \<mapsto> padTime (Num (cyc12 v (if isBack c then - d else d))))\<rparr>)"
proof -
  have "(if isBack c then d * -1 else d) \<in> {1, -1}" using assms(4) by auto
  then show ?thesis using assms
    by (auto simp: incrementClk_def padTime_roundtrip Let_def domI incrementClk_wrap_eq[symmetric] simp del: js_to_string.simps)
qed

text \<open>
  C25: incrementing a clock whose element does not exist throws a TypeError
  (reading innerHTML of undefined).
\<close>

theorem incrementClk_missing: "clk s c = None \<Longrightarrow> \<exists>e. incrementClk s c d = Inl e"
  by (simp add: incrementClk_def get_innerHTML_def Let_def)

text \<open>
  C26: a clock whose text parseInt cannot read (NaN) is overwritten with the text "NaN"
  by an increment: NaN + d is NaN, neither comparison with 12 or 1 holds, and padTime
  returns NaN's string.
\<close>

theorem incrementClk_NaN:
  "clk s c = Some h \<Longrightarrow> parseInt h = NaN \<Longrightarrow>
   incrementClk s c d = Inr (s\<lparr>clk := (clk s)(c \<mapsto> ''NaN'')\<rparr>)"
  by (simp add: incrementClk_def padTime_def domI Let_def)

lemma incrementClk_replicate:
  assumes "clk s c = Some (padTime (Num v))" "1 \<le> v" "v \<le> 12" "d \<in> {1, -1}"
  shows "forE (\<lambda>s c. incrementClk s c d) s (replicate k c) =
    Inr (s\<lparr>clk := (clk s)(c \<mapsto> padTime (Num (cyc12 v (int k * (if isBack c then - d else d)))))\<rparr>)"
  using assms(1-3)
proof (induction k arbitrary: s v)
  case 0
  then show ?case by (simp add: cyc12_period[where k = 0, simplified] map_upd_triv)
next
  case (Suc k)
  let ?d = "if isBack c then - d else d"
  let ?s1 = "s\<lparr>clk := (clk s)(c \<mapsto> padTime (Num (cyc12 v ?d)))\<rparr>"
  have step: "incrementClk s c d = Inr ?s1"
    using Suc.prems assms(4) by (rule incrementClk_ok)
  have "forE (\<lambda>s c. incrementClk s c d) ?s1 (replicate k c) =
      Inr (?s1\<lparr>clk := (clk ?s1)(c \<mapsto> padTime (Num (cyc12 (cyc12 v ?d) (int k * ?d))))\<rparr>)"
    by (rule Suc.IH) (simp_all add: cyc12_range)
  moreover have "?d + int k * ?d = int (Suc k) * ?d" by (simp add: algebra_simps)
  ultimately show ?case using step by (simp add: cyc12_add fun_eq_iff split del: if_split)
qed

text \<open>
  C16: twelve increments of a well-formed clock in the same direction restore the page.
\<close>

theorem incrementClk_twelve:
  assumes "clk s c = Some (padTime (Num v))" "1 \<le> v" "v \<le> 12" "d \<in> {1, -1}"
  shows "forE (\<lambda>s c. incrementClk s c d) s (replicate 12 c) = Inr s"
proof -
  have "cyc12 v (int 12 * (if isBack c then - d else d)) = v"
    using assms(2,3) cyc12_period by simp
  with incrementClk_replicate[OF assms, of 12] assms(1) show ?thesis
    by (simp add: map_upd_triv)
qed

lemma incrementClk_bumped:
  assumes "clk s c = Some h" "clock_ok h" "d \<in> {1, -1}"
  shows "incrementClk s c d = Inr (s\<lparr>clk := (clk s)(c \<mapsto> bumped h c d)\<rparr>) \<and> clock_ok (bumped h c d)"
proof -
  obtain v where v: "1 \<le> v" "v \<le> 12" "h = padTime (Num v)" using assms(2) clock_ok_iff by blast
  then have "incrementClk s c d = Inr (s\<lparr>clk := (clk s)(c \<mapsto> bumped h c d)\<rparr>)"
    using incrementClk_ok[of s c v d] assms by (simp add: bumped_def)
  moreover have "clock_ok (bumped h c d)" using cyc12_range by (auto simp: bumped_def clock_ok_iff)
  ultimately show ?thesis by blast
qed

lemma clocks_ok_at:
  assumes "clocks_ok s" "c \<in> set clkNames"
  shows "\<exists>h. clk s c = Some h \<and> clock_ok h"
proof -
  from assms obtain h where "clk s c = Some h" by (auto simp: clocks_ok_def)
  with assms show ?thesis by (auto simp: clocks_ok_def)
qed

lemma clock_ok_12 [simp]: "clock_ok ''12''"
  by code_simp

lemma clockFaces_eq:
  "clockFaces = [''01'', ''02'', ''03'', ''04'', ''05'', ''06'', ''07'', ''08'', ''09'', ''10'', ''11'', ''12'']"
  by code_simp

text \<open>
  C17: for every clock value 1..12, the text padTime writes is two characters long and
  parseInt reads it back as the same number.
\<close>

theorem padTime_clock_roundtrip:
  assumes "1 \<le> n" "n \<le> 12"
  shows "parseInt (padTime (Num n)) = Num n \<and> length (padTime (Num n)) = 2"
proof -
  have "clock_ok (padTime (Num n))" using assms by (auto simp: clock_ok_iff)
  then have "length (padTime (Num n)) = 2" by (auto simp: clock_ok_def clockFaces_eq)
  then show ?thesis using assms padTime_roundtrip by simp
qed

text \<open>
  C15: incrementing a clock that shows a well-formed text changes that clock only, to the
  well-formed text of its value turned by the direction (negated on the back face)
  modulo 12 in the range 1..12.
\<close>

theorem incrementClk_turns:
  assumes "clk s c = Some h" "clock_ok h" "d \<in> {1, -1}"
  shows "\<exists>s'. incrementClk s c d = Inr s' \<and> s'\<lparr>clk := clk s\<rparr> = s
    \<and> (\<forall>c'. c' \<noteq> c \<longrightarrow> clk s' c' = clk s c')
    \<and> (\<exists>h'. clk s' c = Some h' \<and> clock_ok h'
           \<and> dial_value h' = (dial_value h - 1 + (if isBack c then - d else d)) mod 12 + 1)"
proof -
  have r: "incrementClk s c d = Inr (s\<lparr>clk := (clk s)(c \<mapsto> bumped h c d)\<rparr>)" "clock_ok (bumped h c d)"
    using incrementClk_bumped[OF assms] by blast+
  have "0 \<le> cyc12 v e" for v e using cyc12_range[of v e] by linarith
  then have "dial_value (bumped h c d) = (dial_value h - 1 + (if isBack c then - d else d)) mod 12 + 1"
    by (simp add: bumped_def cyc12_def)
  then show ?thesis using r by simp
qed

end
