(* ===== verification/Pins.thy ===== *)
theory Pins
  imports Page
begin

text \<open>
  The pin checkboxes (src/script.js lines 68--82 and 197--206). \<open>invertPins\<close> installs,
  for each of the four front/back pairs, a change handler on each checkbox that writes the
  negation of its own state into its partner. A user click flips the checkbox and then
  fires its change handler (the browser's behaviour, modelled in \<open>pin_click\<close>).
  \<open>setPinPositions\<close> writes all eight flags from four JS numbers, front pins the
  truthiness of the argument and back pins its negation; assignments to \<open>checked\<close>
  fire no change event. The invariant \<open>pins_ok\<close> says that exactly the eight pins
  exist and each back pin is the negation of its front partner.
\<close>

section \<open>Definitions\<close>

definition pinPairs :: "(name \<times> name) list" where
  "pinPairs = [(''pul'', ''bpul''), (''pur'', ''bpur''), (''pdr'', ''bpdr''), (''pdl'', ''bpdl'')]"

text \<open>The handler \<open>invertPins\<close> installs on \<open>pinFront\<close> (and, with the roles
  swapped, on \<open>pinBack\<close>): \<open>partner.checked = !self.checked\<close>.\<close>

definition invertPins_onchange :: "page \<Rightarrow> name \<Rightarrow> name \<Rightarrow> page js" where
  "invertPins_onchange s self partner =
     bindE (get_checked s self) (\<lambda>b. set_checked s partner (\<not> b))"

text \<open>Which checkbox has a change handler, and whose state it writes.\<close>

definition onchange_partner :: "name \<rightharpoonup> name" where
  "onchange_partner = map_of (pinPairs @ map (\<lambda>(f, b). (b, f)) pinPairs)"

definition pin_click :: "page \<Rightarrow> name \<Rightarrow> page js" where
  "pin_click s p =
     bindE (get_checked s p) (\<lambda>b.
     bindE (set_checked s p (\<not> b)) (\<lambda>s'.
       case onchange_partner p of
         None \<Rightarrow> Inr s'
       | Some q \<Rightarrow> invertPins_onchange s' p q))"

text \<open>JS truthiness of a number other than \<open>NaN\<close>: \<open>checked = 1\<close> raises a pin.\<close>

definition truthy :: "int \<Rightarrow> bool" where
  "truthy n \<longleftrightarrow> n \<noteq> 0"

definition setPinPositions :: "page \<Rightarrow> int \<Rightarrow> int \<Rightarrow> int \<Rightarrow> int \<Rightarrow> page js" where
  "setPinPositions s ur dr dl ul =
     bindE (set_checked s ''pur'' (truthy ur)) (\<lambda>s.
     bindE (set_checked s ''pdr'' (truthy dr)) (\<lambda>s.
     bindE (set_checked s ''pdl'' (truthy dl)) (\<lambda>s.
     bindE (set_checked s ''pul'' (truthy ul)) (\<lambda>s.
     bindE (set_checked s ''bpur'' (\<not> truthy ur)) (\<lambda>s.
     bindE (set_checked s ''bpdr'' (\<not> truthy dr)) (\<lambda>s.
     bindE (set_checked s ''bpdl'' (\<not> truthy dl)) (\<lambda>s.
     set_checked s ''bpul'' (\<not> truthy ul))))))))"

definition pins_ok :: "page \<Rightarrow> bool" where
  "pins_ok s \<longleftrightarrow> dom (pin s) = set pinNames \<and>
     (\<forall>(f, b) \<in> set pinPairs. pin s b = map_option Not (pin s f))"

section \<open>Lemmas\<close>

lemma pinPairs_cases:
  assumes "(f, b) \<in> set pinPairs"
  obtains "f = ''pul''" "b = ''bpul''" | "f = ''pur''" "b = ''bpur''"
    | "f = ''pdr''" "b = ''bpdr''" | "f = ''pdl''" "b = ''bpdl''"
  using assms by (auto simp: pinPairs_def)
lemma onchange_partner_pair:
  "(f, b) \<in> set pinPairs \<Longrightarrow> onchange_partner f = Some b \<and> onchange_partner b = Some f"
  by (erule pinPairs_cases) (simp_all add: pinPairs_def onchange_partner_def)
lemma pinPairs_names: "(f, b) \<in> set pinPairs \<Longrightarrow> f \<in> set pinNames \<and> b \<in> set pinNames \<and> f \<noteq> b"
  by (erule pinPairs_cases) (simp_all add: pinNames_def)
lemma pinPairs_disjoint:
  "(f, b) \<in> set pinPairs \<Longrightarrow> (f', b') \<in> set pinPairs \<Longrightarrow> (f', b') \<noteq> (f, b) \<Longrightarrow>
   f' \<noteq> f \<and> f' \<noteq> b \<and> b' \<noteq> f \<and> b' \<noteq> b"
  by (erule pinPairs_cases; erule pinPairs_cases; simp)
lemma pins_ok_pair:
  assumes "pins_ok s" "(f, b) \<in> set pinPairs"
  shows "\<exists>v. pin s f = Some v \<and> pin s b = Some (\<not> v)"
proof -
  have "f \<in> set pinNames" using assms(2) pinPairs_names by blast
  then obtain v where v: "pin s f = Some v" using assms(1) by (auto simp: pins_ok_def)
  moreover have "pin s b = map_option Not (pin s f)" using assms by (auto simp: pins_ok_def)
  ultimately show ?thesis by simp
qed

lemma pin_click_pair:
  assumes "pins_ok s" "(f, b) \<in> set pinPairs" "p = f \<or> p = b" "pin s f = Some v"
  shows "pin_click s p = Inr (s\<lparr>pin := (pin s)(f \<mapsto> \<not> v, b \<mapsto> v)\<rparr>)"
proof -
  have fb: "f \<noteq> b" using assms(2) pinPairs_names by blast
  from pins_ok_pair[OF assms(1,2)] assms(4) have "pin s b = Some (\<not> v)" by auto
  with assms fb onchange_partner_pair[OF assms(2)] show ?thesis
    by (auto simp: pin_click_def invertPins_onchange_def fun_upd_twist domI)
qed

lemma pins_ok_flip:
  assumes "pins_ok s" "(f, b) \<in> set pinPairs" "pin s f = Some v"
  shows "pins_ok (s\<lparr>pin := (pin s)(f \<mapsto> \<not> v, b \<mapsto> v)\<rparr>)"
proof -
  have "f \<in> dom (pin s)" "b \<in> dom (pin s)" using assms(1,2) pins_ok_pair by blast+
  then have dom: "dom ((pin s)(f \<mapsto> \<not> v, b \<mapsto> v)) = set pinNames"
    using assms(1) by (auto simp: pins_ok_def)
  have "\<forall>(f', b') \<in> set pinPairs. ((pin s)(f \<mapsto> \<not> v, b \<mapsto> v)) b' = map_option Not (((pin s)(f \<mapsto> \<not> v, b \<mapsto> v)) f')"
  proof (clarify)
    fix f' b' assume p: "(f', b') \<in> set pinPairs"
    show "((pin s)(f \<mapsto> \<not> v, b \<mapsto> v)) b' = map_option Not (((pin s)(f \<mapsto> \<not> v, b \<mapsto> v)) f')"
    proof (cases "(f', b') = (f, b)")
      case True
      then show ?thesis using assms(2) pinPairs_names by auto
    next
      case False
      with pinPairs_disjoint[OF assms(2) p] assms(1) p show ?thesis by (auto simp: pins_ok_def)
    qed
  qed
  with dom show ?thesis by (simp add: pins_ok_def)
qed

lemma setPinPositions_result:
  assumes "dom (pin s) = set pinNames"
  shows "setPinPositions s ur dr dl ul = Inr (s\<lparr>pin := (pin s)(''pur'' \<mapsto> truthy ur, ''pdr'' \<mapsto> truthy dr,
     ''pdl'' \<mapsto> truthy dl, ''pul'' \<mapsto> truthy ul, ''bpur'' \<mapsto> \<not> truthy ur, ''bpdr'' \<mapsto> \<not> truthy dr,
     ''bpdl'' \<mapsto> \<not> truthy dl, ''bpul'' \<mapsto> \<not> truthy ul)\<rparr>)"
  using assms by (simp add: setPinPositions_def pinNames_def)

lemma setPinPositions_pins_ok:
  assumes "dom (pin s) = set pinNames" "setPinPositions s ur dr dl ul = Inr s'"
  shows "pins_ok s'"
proof -
  have "pin s' = (pin s)(''pur'' \<mapsto> truthy ur, ''pdr'' \<mapsto> truthy dr,
     ''pdl'' \<mapsto> truthy dl, ''pul'' \<mapsto> truthy ul, ''bpur'' \<mapsto> \<not> truthy ur, ''bpdr'' \<mapsto> \<not> truthy dr,
     ''bpdl'' \<mapsto> \<not> truthy dl, ''bpul'' \<mapsto> \<not> truthy ul)"
    using assms setPinPositions_result[OF assms(1)] by auto
  with assms(1) show ?thesis by (simp add: pins_ok_def pinPairs_def pinNames_def insert_absorb)
qed

lemma pinNames_pairs: "p \<in> set pinNames \<Longrightarrow> \<exists>f b. (f, b) \<in> set pinPairs \<and> (p = f \<or> p = b)"
  by (simp add: pinNames_def, elim disjE; auto simp: pinPairs_def)

lemma pin_click_pins_ok:
  assumes "pins_ok s" "p \<in> set pinNames"
  shows "\<exists>s'. pin_click s p = Inr s' \<and> pins_ok s' \<and> pin s' p = map_option Not (pin s p)
    \<and> clk s' = clk s \<and> border s' = border s \<and> controllingFront s' = controllingFront s
    \<and> alerts s' = alerts s"
proof -
  obtain f b where fb: "(f, b) \<in> set pinPairs" "p = f \<or> p = b" using pinNames_pairs[OF assms(2)] by blast
  obtain v where v: "pin s f = Some v" "pin s b = Some (\<not> v)" using pins_ok_pair[OF assms(1) fb(1)] by blast
  have "f \<noteq> b" using pinPairs_names[OF fb(1)] by blast
  then show ?thesis using pin_click_pair[OF assms(1) fb v(1)] pins_ok_flip[OF assms(1) fb(1) v(1)] fb(2) v
    by auto
qed

end
