(* ===== verification/Activation.thy ===== *)
theory Activation
  imports Pins
begin

text \<open>
  The activation resolver, \<open>getActiveNeighbors\<close> (src/script.js lines 156--174): the
  front pin at the pressed corner selects the acting face's bank of four pins; every
  raised pin of that bank contributes its four clocks (lines 160--164); every corner clock
  collected also drags its other-face counterpart (166--171); a \<open>Set\<close> removes the
  duplicates (173). The lemmas compute each stage on a page whose pins satisfy
  \<open>pins_ok\<close>, and show that the resolver never throws for the four corners, returns
  distinct clock ids, and always moves the pressed corner on both faces.
\<close>

section \<open>Definitions\<close>

definition collectStep :: "page \<Rightarrow> name list \<Rightarrow> name \<Rightarrow> name list js" where
  "collectStep s activeFaceClks pinName =
     bindE (get_checked s pinName) (\<lambda>c.
       if c then
         (case getNeighborsOfPin pinName of
            None \<Rightarrow> Inl (TypeError ''spread of undefined'')
          | Some ns \<Rightarrow> Inr (activeFaceClks @ ns))
       else Inr activeFaceClks)"

definition collectActivePins :: "page \<Rightarrow> name list \<Rightarrow> name list js" where
  "collectActivePins s targetPins = forE (collectStep s) [] targetPins"

definition addComplements :: "name list \<Rightarrow> name list" where
  "addComplements activeFaceClks =
     foldl (\<lambda>activeClks clkName.
              if isCorner clkName then activeClks @ [getComplementOfClk clkName] else activeClks)
       activeFaceClks activeFaceClks"

definition getActiveNeighbors :: "page \<Rightarrow> name \<Rightarrow> name list js" where
  "getActiveNeighbors s corner =
     bindE (get_checked s (''p'' @ corner)) (\<lambda>c.
       let targetPins = (if c then take 4 pinNames else drop 4 pinNames) in
       bindE (collectActivePins s targetPins) (\<lambda>activeFaceClks.
         Inr (js_Set (addComplements activeFaceClks))))"

text \<open>Specification side: the four corner suffixes the buttons name (\<open>btnName.slice(1, 3)\<close>).\<close>

definition corners :: "name list" where
  "corners = [''ul'', ''ur'', ''dr'', ''dl'']"

definition raised_neighbors :: "page \<Rightarrow> name list \<Rightarrow> name list" where
  "raised_neighbors s ps =
     concat (map (\<lambda>p. the (getNeighborsOfPin p)) (filter (\<lambda>p. pin s p = Some True) ps))"

section \<open>Lemmas\<close>

lemma collectActivePins_loop:
  assumes "\<forall>p \<in> set ps. p \<in> dom (pin s) \<and> p \<in> set pinNames"
  shows "forE (collectStep s) acc ps = Inr (acc @ raised_neighbors s ps)"
  using assms
proof (induction ps arbitrary: acc)
  case Nil
  then show ?case by (simp add: raised_neighbors_def)
next
  case (Cons p ps)
  then obtain b where b: "pin s p = Some b" by auto
  obtain ns where ns: "getNeighborsOfPin p = Some ns"
    using Cons.prems getNeighborsOfPin_pinNames by fastforce
  show ?case using Cons b ns by (simp add: collectStep_def raised_neighbors_def)
qed

lemma addComplements_eq: "addComplements xs = xs @ map getComplementOfClk (filter isCorner xs)"
  by (simp add: addComplements_def foldl_append_if_eq)

lemma set_addComplements:
  "set (addComplements xs) = set xs \<union> getComplementOfClk ` {c \<in> set xs. isCorner c}"
  by (auto simp: addComplements_eq)

lemma corner_tables:
  assumes "k \<in> set corners"
  shows "(''p'' @ k, ''bp'' @ k) \<in> set pinPairs \<and> ''p'' @ k \<in> set (take 4 pinNames)
    \<and> ''bp'' @ k \<in> set (drop 4 pinNames)
    \<and> ''c'' @ k \<in> set (the (getNeighborsOfPin (''p'' @ k)))
    \<and> ''bc'' @ k \<in> set (the (getNeighborsOfPin (''bp'' @ k)))
    \<and> isCorner (''c'' @ k) \<and> isCorner (''bc'' @ k)
    \<and> getComplementOfClk (''c'' @ k) = ''bc'' @ k \<and> getComplementOfClk (''bc'' @ k) = ''c'' @ k"
  using assms by (simp add: corners_def, elim disjE; simp add: table_simps pinPairs_def)

lemma take_drop_pinNames: "set (take 4 pinNames) \<subseteq> set pinNames" "set (drop 4 pinNames) \<subseteq> set pinNames"
  by (simp_all add: set_take_subset set_drop_subset)

lemma getActiveNeighbors_ok:
  assumes "pins_ok s" "k \<in> set corners"
  shows "getActiveNeighbors s k = Inr (js_Set (addComplements (raised_neighbors s
    (if pin s (''p'' @ k) = Some True then take 4 pinNames else drop 4 pinNames))))"
proof -
  from corner_tables[OF assms(2)] have pair: "(''p'' @ k, ''bp'' @ k) \<in> set pinPairs" by blast
  obtain v where v: "pin s (''p'' @ k) = Some v" using pins_ok_pair[OF assms(1) pair] by blast
  have dom: "dom (pin s) = set pinNames" using assms(1) by (simp add: pins_ok_def)
  have "\<forall>p \<in> set (if v then take 4 pinNames else drop 4 pinNames). p \<in> dom (pin s) \<and> p \<in> set pinNames"
    using take_drop_pinNames dom by auto
  then show ?thesis using v
    by (simp add: getActiveNeighbors_def collectActivePins_def collectActivePins_loop)
qed

lemma set_raised_neighbors:
  "x \<in> set (raised_neighbors s ps) \<longleftrightarrow>
   (\<exists>p \<in> set ps. pin s p = Some True \<and> x \<in> set (the (getNeighborsOfPin p)))"
  by (auto simp: raised_neighbors_def)

lemma raised_neighbors_clkNames:
  "set ps \<subseteq> set pinNames \<Longrightarrow> set (raised_neighbors s ps) \<subseteq> set clkNames"
  using getNeighborsOfPin_pinNames by (fastforce simp: set_raised_neighbors)

lemma getActiveNeighbors_pressed:
  assumes "pins_ok s" "k \<in> set corners"
  shows "\<exists>ns. getActiveNeighbors s k = Inr ns \<and> distinct ns \<and> set ns \<subseteq> set clkNames
    \<and> ''c'' @ k \<in> set ns \<and> ''bc'' @ k \<in> set ns"
proof -
  note tab = corner_tables[OF assms(2)]
  obtain v where v: "pin s (''p'' @ k) = Some v" "pin s (''bp'' @ k) = Some (\<not> v)"
    using pins_ok_pair[OF assms(1)] tab by blast
  define ps where "ps = (if v then take 4 pinNames else drop 4 pinNames)"
  define xs where "xs = raised_neighbors s ps"
  have res: "getActiveNeighbors s k = Inr (js_Set (addComplements xs))"
    using getActiveNeighbors_ok[OF assms] v by (simp add: xs_def ps_def)
  have "set ps \<subseteq> set pinNames" using take_drop_pinNames by (simp add: ps_def)
  then have sub: "set xs \<subseteq> set clkNames" by (simp add: xs_def raised_neighbors_clkNames)
  then have "set (addComplements xs) \<subseteq> set clkNames"
    using getComplementOfClk_clkNames by (auto simp: set_addComplements)
  moreover have "''c'' @ k \<in> set (addComplements xs) \<and> ''bc'' @ k \<in> set (addComplements xs)"
  proof (cases v)
    case True
    then have "''c'' @ k \<in> set xs" using tab v by (auto simp: xs_def ps_def set_raised_neighbors)
    then show ?thesis using tab by (force simp: set_addComplements)
  next
    case False
    then have "''bc'' @ k \<in> set xs" using tab v by (auto simp: xs_def ps_def set_raised_neighbors)
    then show ?thesis using tab by (force simp: set_addComplements)
  qed
  ultimately show ?thesis using res by simp
qed

lemma getActiveNeighbors_unknown:
  assumes "pins_ok s" "k \<notin> set corners"
  shows "getActiveNeighbors s k = Inl (TypeError ''pin[name] is undefined'')"
proof -
  have "''p'' @ k \<notin> set pinNames" using assms(2) by (auto simp: pinNames_def corners_def)
  then have "pin s (''p'' @ k) = None" using assms(1) by (auto simp: pins_ok_def)
  then show ?thesis by (simp add: getActiveNeighbors_def get_checked_def)
qed

end
