(* ===== verification/Move.thy ===== *)
theory Move
  imports Dials Activation
begin

text \<open>
  The move engine and the solved check (src/script.js lines 176--193). \<open>applyMove\<close>
  asks the resolver for the clocks to turn, increments each once in the \<open>Set\<close>'s
  order, then scans all 18 clocks for the text \<open>"12"\<close> and, when all show it,
  schedules the alert \<open>"Solved!"\<close> (modelled as appending to \<open>alerts\<close>; the
  100 ms delay is not modelled). The page invariant \<open>page_ok\<close> joins the clock and
  pin invariants and the presence of both face elements; the lemmas show that a move on a well-formed page never throws, keeps
  the invariant, turns exactly the resolved clocks once each in any order, and reports
  solved exactly when all clocks read 12.
\<close>

section \<open>Definitions\<close>

fun isSolvedFrom :: "page \<Rightarrow> name list \<Rightarrow> bool js" where
  "isSolvedFrom s [] = Inr True"
| "isSolvedFrom s (clkName # cs) =
     bindE (get_innerHTML s clkName) (\<lambda>h. if h \<noteq> ''12'' then Inr False else isSolvedFrom s cs)"

definition isSolved :: "page \<Rightarrow> bool js" where
  "isSolved s = isSolvedFrom s clkNames"

definition applyMove :: "page \<Rightarrow> name \<Rightarrow> int \<Rightarrow> page js" where
  "applyMove s corner direction =
     bindE (getActiveNeighbors s corner) (\<lambda>activeNeighbors.
     bindE (forE (\<lambda>s clkName. incrementClk s clkName direction) s activeNeighbors) (\<lambda>s.
     bindE (isSolved s) (\<lambda>solved.
       Inr (if solved then s\<lparr>alerts := alerts s @ [''Solved!'']\<rparr> else s))))"

text \<open>Both face elements exist (their ids are the only keys of \<open>border\<close>).\<close>

definition faces_ok :: "page \<Rightarrow> bool" where
  "faces_ok s \<longleftrightarrow> dom (border s) = {''frontFace'', ''backFace''}"

definition page_ok :: "page \<Rightarrow> bool" where
  "page_ok s \<longleftrightarrow> clocks_ok s \<and> pins_ok s \<and> faces_ok s"

text \<open>Specification side: all 18 clocks show 12, and a set of clocks turned once each.\<close>

definition all_twelve :: "page \<Rightarrow> bool" where
  "all_twelve s \<longleftrightarrow> (\<forall>c \<in> set clkNames. clk s c = Some ''12'')"

definition turn_set :: "page \<Rightarrow> name set \<Rightarrow> int \<Rightarrow> page" where
  "turn_set s S d =
     s\<lparr>clk := \<lambda>c. if c \<in> S then Some (bumped (the (clk s c)) c d) else clk s c\<rparr>"

section \<open>Lemmas\<close>

lemma isSolvedFrom_eq:
  "set cs \<subseteq> dom (clk s) \<Longrightarrow> isSolvedFrom s cs = Inr (\<forall>c \<in> set cs. clk s c = Some ''12'')"
  by (induction cs) auto

lemma isSolved_eq: "clocks_ok s \<Longrightarrow> isSolved s = Inr (all_twelve s)"
  by (simp add: isSolved_def clocks_ok_def all_twelve_def isSolvedFrom_eq)

lemma faces_ok_upd [simp]:
  "faces_ok (s\<lparr>clk := x\<rparr>) = faces_ok s" "faces_ok (s\<lparr>pin := y\<rparr>) = faces_ok s"
  "faces_ok (s\<lparr>alerts := a\<rparr>) = faces_ok s" "faces_ok (s\<lparr>controllingFront := b\<rparr>) = faces_ok s"
  by (simp_all add: faces_ok_def)

lemma faces_ok_turn_set [simp]: "faces_ok (turn_set s S d) = faces_ok s"
  by (simp add: turn_set_def)

lemma page_ok_blur [simp]: "page_ok (blur s n) = page_ok s"
  and page_ok_focus [simp]: "page_ok (focus s n) = page_ok s"
  by (simp_all add: page_ok_def clocks_ok_def pins_ok_def faces_ok_def)

lemma turn_set_empty [simp]: "turn_set s {} d = s"
  by (simp add: turn_set_def)

lemma dom_turn_set: "S \<subseteq> dom (clk s) \<Longrightarrow> dom (clk (turn_set s S d)) = dom (clk s)"
  by (auto simp: turn_set_def split: if_split_asm)

lemma clocks_ok_turn_set:
  assumes "clocks_ok s" "S \<subseteq> set clkNames" "d \<in> {1, -1}"
  shows "clocks_ok (turn_set s S d)"
proof -
  have bump: "clock_ok (bumped (the (clk s c)) c d)" if c: "c \<in> S" for c
  proof -
    obtain h where "clk s c = Some h" "clock_ok h" using clocks_ok_at[OF assms(1)] assms(2) c by blast
    then show ?thesis using incrementClk_bumped[of s c h d] assms(3) by simp
  qed
  have "dom (clk (turn_set s S d)) = set clkNames"
    using assms(1,2) dom_turn_set[of S s d] by (simp add: clocks_ok_def)
  moreover have "\<forall>c \<in> set clkNames. clock_ok (the (clk (turn_set s S d) c))"
    using bump assms(1) by (simp add: turn_set_def clocks_ok_def)
  ultimately show ?thesis by (simp add: clocks_ok_def)
qed

lemma forE_incrementClk:
  assumes "clocks_ok s" "distinct ns" "set ns \<subseteq> set clkNames" "d \<in> {1, -1}"
  shows "forE (\<lambda>s c. incrementClk s c d) s ns = Inr (turn_set s (set ns) d)"
  using assms
proof (induction ns arbitrary: s)
  case Nil
  then show ?case by simp
next
  case (Cons c ns)
  obtain h where h: "clk s c = Some h" "clock_ok h"
    using Cons.prems clocks_ok_at by (meson list.set_intros(1) subsetD)
  let ?s1 = "s\<lparr>clk := (clk s)(c \<mapsto> bumped h c d)\<rparr>"
  have step: "incrementClk s c d = Inr ?s1" and ok1: "clock_ok (bumped h c d)"
    using incrementClk_bumped[OF h Cons.prems(4)] by blast+
  have s1: "clocks_ok ?s1" using Cons.prems(1,3) ok1 by (auto simp: clocks_ok_def)
  have "forE (\<lambda>s c. incrementClk s c d) ?s1 ns = Inr (turn_set ?s1 (set ns) d)"
    using Cons.IH[OF s1] Cons.prems by simp
  moreover have "turn_set ?s1 (set ns) d = turn_set s (set (c # ns)) d"
    using Cons.prems(2) h by (auto simp: turn_set_def fun_eq_iff)
  ultimately show ?case using step by simp
qed

lemma applyMove_result:
  assumes "page_ok s" "k \<in> set corners" "d \<in> {1, -1}"
  shows "\<exists>ns. getActiveNeighbors s k = Inr ns \<and> distinct ns \<and> set ns \<subseteq> set clkNames \<and>
    applyMove s k d = Inr (if all_twelve (turn_set s (set ns) d)
      then (turn_set s (set ns) d)\<lparr>alerts := alerts s @ [''Solved!'']\<rparr>
      else turn_set s (set ns) d)"
proof -
  have ok: "clocks_ok s" "pins_ok s" using assms(1) by (simp_all add: page_ok_def)
  obtain ns where ns: "getActiveNeighbors s k = Inr ns" "distinct ns" "set ns \<subseteq> set clkNames"
    using getActiveNeighbors_pressed[OF ok(2) assms(2)] by blast
  have "clocks_ok (turn_set s (set ns) d)" using clocks_ok_turn_set[OF ok(1) ns(3) assms(3)] .
  then show ?thesis using ns forE_incrementClk[OF ok(1) ns(2,3) assms(3)]
    by (simp add: applyMove_def isSolved_eq turn_set_def)
qed

lemma pins_turn_set [simp]: "pin (turn_set s S d) = pin s"
  by (simp add: turn_set_def)

lemma applyMove_page_ok:
  assumes "page_ok s" "k \<in> set corners" "d \<in> {1, -1}" "applyMove s k d = Inr s'"
  shows "page_ok s'"
proof -
  obtain ns where ns: "getActiveNeighbors s k = Inr ns" "set ns \<subseteq> set clkNames"
    and r: "applyMove s k d = Inr (if all_twelve (turn_set s (set ns) d)
      then (turn_set s (set ns) d)\<lparr>alerts := alerts s @ [''Solved!'']\<rparr>
      else turn_set s (set ns) d)"
    using applyMove_result[OF assms(1-3)] by blast
  have "clocks_ok (turn_set s (set ns) d)"
    using clocks_ok_turn_set ns(2) assms(1,3) by (simp add: page_ok_def)
  moreover have "pins_ok (turn_set s (set ns) d)" using assms(1) by (simp add: page_ok_def pins_ok_def)
  ultimately show ?thesis using r assms(1,4)
    by (auto simp: page_ok_def clocks_ok_def pins_ok_def split: if_splits)
qed

lemma applyMove_activeElement:
  assumes "page_ok s" "k \<in> set corners" "d \<in> {1, -1}" "applyMove s k d = Inr s'"
  shows "activeElement s' = activeElement s"
  using applyMove_result[OF assms(1-3)] assms(4) by (auto simp: turn_set_def)

text \<open>
  C5: on a well-formed page, pressing any of the four corners in either direction never
  throws, keeps the page well formed, and turns the pressed corner's clock on both faces
  (so a press is never a no-op).
\<close>

theorem applyMove_pressed_corner:
  assumes "page_ok s" "k \<in> set corners" "d \<in> {1, -1}"
  shows "\<exists>s'. applyMove s k d = Inr s' \<and> page_ok s'
    \<and> clk s' (''c'' @ k) = Some (bumped (the (clk s (''c'' @ k))) (''c'' @ k) d)
    \<and> clk s' (''bc'' @ k) = Some (bumped (the (clk s (''bc'' @ k))) (''bc'' @ k) d)"
proof -
  obtain ns where ns: "getActiveNeighbors s k = Inr ns" "''c'' @ k \<in> set ns" "''bc'' @ k \<in> set ns"
    using getActiveNeighbors_pressed[of s k] assms by (auto simp: page_ok_def)
  obtain ns' where ns': "getActiveNeighbors s k = Inr ns'"
    and r: "applyMove s k d = Inr (if all_twelve (turn_set s (set ns') d)
      then (turn_set s (set ns') d)\<lparr>alerts := alerts s @ [''Solved!'']\<rparr>
      else turn_set s (set ns') d)"
    using applyMove_result[OF assms] by blast
  have "ns' = ns" using ns ns' by simp
  then show ?thesis using r ns applyMove_page_ok[OF assms r]
    by (simp add: turn_set_def)
qed

text \<open>
  C24: pressing a corner name other than ul, ur, dr, dl on a page with well-formed pins
  throws a TypeError from the pin lookup and changes nothing.
\<close>

theorem applyMove_unknown_corner:
  assumes "pins_ok s" "k \<notin> set corners"
  shows "applyMove s k d = Inl (TypeError ''pin[name] is undefined'')"
  using getActiveNeighbors_unknown[OF assms] by (simp add: applyMove_def)

text \<open>
  C8: the increments of a move do not depend on the order in which the Set yields the
  clocks: two duplicate-free lists of the same clocks give the same page.
\<close>

theorem increments_order_independent:
  assumes "clocks_ok s" "distinct xs" "distinct ys" "set xs = set ys" "set xs \<subseteq> set clkNames"
    "d \<in> {1, -1}"
  shows "forE (\<lambda>s c. incrementClk s c d) s xs = forE (\<lambda>s c. incrementClk s c d) s ys"
  using forE_incrementClk[OF assms(1,2,5,6)] forE_incrementClk[OF assms(1,3) _ assms(6)] assms(4,5)
  by simp

end
