(* ===== verification/Controls.thy ===== *)
theory Controls
  imports Complex_Main Move
begin

text \<open>
  The input adapters of src/script.js: the button handlers (lines 114--129), the keyboard
  tables and handler with the face toggle (195--294) and the solve and scramble buttons
  (298--315). A click on a button element runs its \<open>onclick\<close>: a
  front button reads its direction from the fourth character of its id and its corner
  from characters 1--2 and calls \<open>applyMove\<close>; a back button clicks the button whose
  id is its own without the leading \<open>b\<close>. A key press is translated through
  \<open>keyMappingsBack\<close> when the back face is being controlled, then looked up in the pin
  and button tables. \<open>Math.random()\<close> is a stream \<open>rnd\<close> of reals, one per draw.
  The face toggle writes the border colours of the two face elements and throws when one
  is missing. The solve and scramble handlers end with \<open>blur()\<close>, which releases the
  keyboard focus (the page field \<open>activeElement\<close>).
\<close>

section \<open>Definitions\<close>

definition front_onclick :: "page \<Rightarrow> name \<Rightarrow> page js" where
  "front_onclick s btnName =
     (let direction = (if js_index btnName 3 = Some (CHR ''m'') then -1 else 1);
          corner = take 2 (drop 1 btnName)
      in applyMove s corner direction)"

function btn_click :: "page \<Rightarrow> name \<Rightarrow> page js" where
  "btn_click s btnName =
     (if btnName \<in> set (take 8 btnNames) then front_onclick s btnName
      else if btnName \<in> set (drop 8 btnNames) then
        (let frontName = drop 1 btnName in
         if frontName \<in> set btnNames then btn_click s frontName
         else Inl (TypeError ''btn[frontName] is undefined''))
      else Inl (TypeError ''btn[btnName] is undefined''))"
  by pat_completeness auto
termination
proof (relation "measure (\<lambda>(s, b). length b)")
  fix s btnName x
  assume b: "btnName \<in> set (drop 8 btnNames)" and x: "x = drop 1 btnName"
  have "[] \<notin> set (drop 8 btnNames)" by (simp add: btnNames_def)
  with b have "btnName \<noteq> []" by blast
  with x show "((s, x), s, btnName) \<in> measure (\<lambda>(s, b). length b)"
    by simp
qed simp

declare btn_click.simps [simp del]

definition pinMappings :: "(string \<times> int list) list" where
  "pinMappings = [
     (''j'', [1, 0, 0, 0]), (''k'', [0, 1, 0, 0]), (''l'', [0, 0, 1, 0]), ('';'', [0, 0, 0, 1]),
     (''u'', [1, 0, 0, 1]), (''i'', [1, 1, 0, 0]), (''o'', [0, 1, 1, 0]), (''p'', [0, 0, 1, 1]),
     (''n'', [0, 1, 1, 1]), (''m'', [1, 0, 1, 1]), ('','', [1, 1, 0, 1]), (''.'', [1, 1, 1, 0]),
     (''h'', [0, 1, 0, 1]), (''g'', [1, 0, 1, 0]), (''y'', [1, 1, 1, 1]), (''t'', [0, 0, 0, 0])]"

definition btnMappings :: "(string \<times> name) list" where
  "btnMappings = [
     (''a'', ''bulm''), (''s'', ''bulp''), (''d'', ''burm''), (''f'', ''burp''),
     (''z'', ''bdlp''), (''x'', ''bdlm''), (''c'', ''bdrp''), (''v'', ''bdrm'')]"

definition keyMappingsBack :: "(string \<times> string) list" where
  "keyMappingsBack = [
     (''j'', ''.''), (''k'', '',''), (''l'', ''m''), ('';'', ''n''),
     (''u'', ''o''), (''i'', ''i''), (''o'', ''u''), (''p'', ''p''),
     (''n'', '';''), (''m'', ''l''), ('','', ''k''), (''.'', ''j''),
     (''h'', ''h''), (''g'', ''g''), (''y'', ''t''), (''t'', ''y''),
     (''a'', ''f''), (''s'', ''d''), (''d'', ''s''), (''f'', ''a''),
     (''z'', ''v''), (''x'', ''c''), (''c'', ''x''), (''v'', ''z''),
     ('' '', '' '')]"

definition toggleControllingFront :: "page \<Rightarrow> page js" where
  "toggleControllingFront s =
     (let s = s\<lparr>controllingFront := \<not> controllingFront s\<rparr> in
      if controllingFront s then
        bindE (set_borderColor s ''frontFace'' ''red'') (\<lambda>s. set_borderColor s ''backFace'' ''white'')
      else
        bindE (set_borderColor s ''frontFace'' ''white'') (\<lambda>s. set_borderColor s ''backFace'' ''red''))"

text \<open>
  \<open>key in pinMappings\<close> is a lookup in the table (the key names a keyboard event
  carries never coincide with the properties objects inherit); for \<open>key\<close>
  \<open>undefined\<close> (an unmapped key on the back face) every test fails.
\<close>

definition keydown :: "page \<Rightarrow> string \<Rightarrow> page js" where
  "keydown s eventKey =
     (let key = (if controllingFront s then Some eventKey else map_of keyMappingsBack eventKey) in
      case key of
        None \<Rightarrow> Inr s
      | Some key \<Rightarrow>
          (case map_of pinMappings key of
             Some args \<Rightarrow> setPinPositions s (args ! 0) (args ! 1) (args ! 2) (args ! 3)
           | None \<Rightarrow>
               (case map_of btnMappings key of
                  Some b \<Rightarrow> btn_click s b
                | None \<Rightarrow> if key = '' '' then toggleControllingFront s else Inr s)))"

definition solve_click :: "page \<Rightarrow> page js" where
  "solve_click s =
     bindE (forE (\<lambda>s clkName. set_innerHTML s clkName ''12'') s clkNames) (\<lambda>s.
       Inr (blur s ''solveButton''))"

fun scrambleLoop :: "page \<Rightarrow> (nat \<Rightarrow> real) \<Rightarrow> nat \<Rightarrow> name list \<Rightarrow> page js" where
  "scrambleLoop s rnd i [] = Inr s"
| "scrambleLoop s rnd i (clkName # cs) =
     (let randomTime = \<lfloor>rnd i * 12\<rfloor> + 1 in
      bindE (set_innerHTML s clkName (padTime (Num randomTime))) (\<lambda>s.
        scrambleLoop s rnd (Suc i) cs))"

definition scramble_click :: "page \<Rightarrow> (nat \<Rightarrow> real) \<Rightarrow> page js" where
  "scramble_click s rnd = bindE (scrambleLoop s rnd 0 clkNames) (\<lambda>s. Inr (blur s ''scrambleButton''))"

text \<open>Specification side: the back face seen from behind is the front flipped left to
  right, and a turn that is counter-clockwise seen from the back is clockwise from the front.\<close>

definition mirror_corner :: "name \<Rightarrow> name" where
  "mirror_corner k = (if k = ''ul'' then ''ur'' else if k = ''ur'' then ''ul''
     else if k = ''dl'' then ''dr'' else if k = ''dr'' then ''dl'' else k)"

definition mirror_btn :: "name \<Rightarrow> name" where
  "mirror_btn b = ''b'' @ mirror_corner (take 2 (drop 1 b)) @
     (if js_index b 3 = Some (CHR ''m'') then ''p'' else ''m'')"

section \<open>Lemmas\<close>

lemma front_btnNames:
  "take 8 btnNames = [''bulm'', ''bulp'', ''burm'', ''burp'', ''bdrm'', ''bdrp'', ''bdlm'', ''bdlp'']"
  by (simp add: btnNames_def)
lemma front_btn_names:
  "b \<in> set (take 8 btnNames) \<Longrightarrow> take 2 (drop 1 b) \<in> set corners \<and> b \<in> set btnNames
    \<and> ''b'' @ b \<in> set (drop 8 btnNames) \<and> ''b'' @ b \<notin> set (take 8 btnNames)"
  unfolding front_btnNames
  by (simp only: set_simps insert_iff empty_iff, elim disjE FalseE; simp add: btnNames_def corners_def)

lemma back_btnNames:
  "drop 8 btnNames = [''bbulm'', ''bbulp'', ''bburm'', ''bburp'', ''bbdrm'', ''bbdrp'', ''bbdlm'', ''bbdlp'']"
  by (simp add: btnNames_def)

lemma back_btn_names:
  "b \<in> set (drop 8 btnNames) \<Longrightarrow> \<exists>f. b = ''b'' @ f \<and> f \<in> set (take 8 btnNames)"
  unfolding back_btnNames
  by (simp only: set_simps insert_iff empty_iff, elim disjE FalseE; simp add: front_btnNames)

lemma btnNames_split: "set btnNames = set (take 8 btnNames) \<union> set (drop 8 btnNames)"
  by (metis append_take_drop_id set_append)

lemma btn_click_back:
  "b \<in> set (take 8 btnNames) \<Longrightarrow> btn_click s (''b'' @ b) = btn_click s b"
  using front_btn_names[of b] by (simp add: btn_click.simps[of s "CHR ''b'' # b"])

lemma btn_click_front:
  "b \<in> set (take 8 btnNames) \<Longrightarrow>
   btn_click s b = applyMove s (take 2 (drop 1 b)) (if js_index b 3 = Some (CHR ''m'') then -1 else 1)"
  by (simp add: btn_click.simps[of s b] front_onclick_def)

lemma btn_click_page_ok:
  assumes "page_ok s" "b \<in> set btnNames"
  shows "\<exists>s'. btn_click s b = Inr s' \<and> page_ok s' \<and> activeElement s' = activeElement s"
proof -
  obtain f where f: "f \<in> set (take 8 btnNames)" "b = f \<or> b = ''b'' @ f"
    using assms(2) btnNames_split back_btn_names by blast
  define d :: int where "d = (if js_index f 3 = Some (CHR ''m'') then -1 else 1)"
  have d: "d \<in> {1, -1}" by (simp add: d_def)
  have k: "take 2 (drop 1 f) \<in> set corners" using front_btn_names[OF f(1)] by blast
  obtain s' where "applyMove s (take 2 (drop 1 f)) d = Inr s'"
    using applyMove_result[OF assms(1) k d] by blast
  moreover have "page_ok s' \<and> activeElement s' = activeElement s"
    if "applyMove s (take 2 (drop 1 f)) d = Inr s'" for s'
    using applyMove_page_ok[OF assms(1) k d that] applyMove_activeElement[OF assms(1) k d that] by blast
  moreover have "btn_click s b = applyMove s (take 2 (drop 1 f)) d"
    using f btn_click_back btn_click_front by (auto simp: d_def)
  ultimately show ?thesis by auto
qed

text \<open>
  C19: while the back face is controlled, each pin key sets the back pins UL, DL, DR, UR
  to the truthiness of the key's own four table entries, which on the front face set
  UR, DR, DL, UL: the back face, seen from behind, gets the front pattern mirrored
  left to right.
\<close>

theorem keydown_back_pins:
  assumes "dom (pin s) = set pinNames" "\<not> controllingFront s" "(k, args) \<in> set pinMappings"
  shows "\<exists>s'. keydown s k = Inr s' \<and>
    [pin s' ''bpul'', pin s' ''bpdl'', pin s' ''bpdr'', pin s' ''bpur''] = map (\<lambda>a. Some (truthy a)) args"
  using assms(3) unfolding pinMappings_def
  by (simp only: set_simps insert_iff empty_iff prod.inject, elim disjE FalseE conjE;
      simp add: assms(1,2) keydown_def keyMappingsBack_def pinMappings_def btnMappings_def
        setPinPositions_result truthy_def)

text \<open>
  C18: while the back face is controlled, each button key clicks the button of the
  mirrored corner with the opposite direction.
\<close>

theorem keydown_back_buttons:
  assumes "\<not> controllingFront s" "(k, b) \<in> set btnMappings"
  shows "keydown s k = btn_click s (mirror_btn b)"
  using assms(2) unfolding btnMappings_def
  by (simp only: set_simps insert_iff empty_iff prod.inject, elim disjE FalseE conjE;
      simp add: assms(1) keydown_def keyMappingsBack_def pinMappings_def btnMappings_def
        mirror_btn_def mirror_corner_def js_index_def)

lemma btnMappings_names: "(k, b) \<in> set btnMappings \<Longrightarrow> b \<in> set btnNames"
  unfolding btnMappings_def
  by (simp only: set_simps insert_iff empty_iff prod.inject, elim disjE FalseE conjE; simp add: btnNames_def)

lemma setPinPositions_page_ok:
  assumes "page_ok s" "setPinPositions s ur dr dl ul = Inr s'"
  shows "page_ok s' \<and> clk s' = clk s \<and> alerts s' = alerts s \<and> controllingFront s' = controllingFront s"
proof -
  have dom: "dom (pin s) = set pinNames" using assms(1) by (simp add: page_ok_def pins_ok_def)
  then have "pins_ok s'" using assms(2) setPinPositions_pins_ok by blast
  moreover have "clk s' = clk s \<and> alerts s' = alerts s \<and> controllingFront s' = controllingFront s
      \<and> border s' = border s"
    using assms(2) setPinPositions_result[OF dom] by auto
  ultimately show ?thesis using assms(1) by (simp add: page_ok_def clocks_ok_def faces_ok_def)
qed

lemma toggleControllingFront_ok:
  assumes "faces_ok s"
  shows "toggleControllingFront s = Inr (s\<lparr>border := (border s)(
      ''frontFace'' \<mapsto> (if controllingFront s then ''white'' else ''red''),
      ''backFace'' \<mapsto> (if controllingFront s then ''red'' else ''white'')),
    controllingFront := \<not> controllingFront s\<rparr>)"
  using assms by (cases "controllingFront s") (simp_all add: toggleControllingFront_def faces_ok_def)

lemma toggleControllingFront_page_ok:
  assumes "page_ok s"
  shows "\<exists>s'. toggleControllingFront s = Inr s' \<and> page_ok s'"
proof -
  have f: "faces_ok s" using assms by (simp add: page_ok_def)
  then show ?thesis using assms toggleControllingFront_ok[OF f]
    by (auto simp: page_ok_def faces_ok_def clocks_ok_def pins_ok_def)
qed

lemma keydown_page_ok:
  assumes "page_ok s"
  shows "\<exists>s'. keydown s k = Inr s' \<and> page_ok s'"
proof -
  have dom: "dom (pin s) = set pinNames" using assms by (simp add: page_ok_def pins_ok_def)
  have pinkey: "\<exists>s'. setPinPositions s (a ! 0) (a ! 1) (a ! 2) (a ! 3) = Inr s' \<and> page_ok s'" for a
    using setPinPositions_result[OF dom] setPinPositions_page_ok[OF assms] by blast
  have btnkey: "\<exists>s'. btn_click s b = Inr s' \<and> page_ok s'" if "map_of btnMappings k' = Some b" for k' b
    using btn_click_page_ok[OF assms] btnMappings_names map_of_SomeD[OF that] by blast
  have tog: "\<exists>s'. toggleControllingFront s = Inr s' \<and> page_ok s'"
    using toggleControllingFront_page_ok[OF assms] .
  define key where "key = (if controllingFront s then Some k else map_of keyMappingsBack k)"
  have kd: "keydown s k = (case key of None \<Rightarrow> Inr s
      | Some key \<Rightarrow> (case map_of pinMappings key of
          Some args \<Rightarrow> setPinPositions s (args ! 0) (args ! 1) (args ! 2) (args ! 3)
        | None \<Rightarrow> (case map_of btnMappings key of Some b \<Rightarrow> btn_click s b
            | None \<Rightarrow> if key = '' '' then toggleControllingFront s else Inr s)))"
    by (simp add: keydown_def key_def)
  show ?thesis
  proof (cases key)
    case None
    then show ?thesis using kd assms by simp
  next
    case (Some kk)
    show ?thesis
    proof (cases "map_of pinMappings kk")
      case (Some a)
      then show ?thesis using kd \<open>key = Some kk\<close> pinkey[of a] by simp
    next
      case None
      then show ?thesis using kd \<open>key = Some kk\<close> btnkey tog assms
        by (cases "map_of btnMappings kk") auto
    qed
  qed
qed

lemma solve_loop:
  "set cs \<subseteq> dom (clk s) \<Longrightarrow> forE (\<lambda>s c. set_innerHTML s c ''12'') s cs =
     Inr (s\<lparr>clk := \<lambda>c. if c \<in> set cs then Some ''12'' else clk s c\<rparr>)"
proof (induction cs arbitrary: s)
  case Nil
  then show ?case by simp
next
  case (Cons c cs)
  let ?s1 = "s\<lparr>clk := (clk s)(c \<mapsto> ''12'')\<rparr>"
  have c: "c \<in> dom (clk s)" using Cons.prems by simp
  have "set cs \<subseteq> dom (clk ?s1)" using Cons.prems by auto
  then have "forE (\<lambda>s c. set_innerHTML s c ''12'') ?s1 cs =
      Inr (?s1\<lparr>clk := \<lambda>c'. if c' \<in> set cs then Some ''12'' else clk ?s1 c'\<rparr>)"
    by (rule Cons.IH)
  then show ?case using c by (simp add: fun_eq_iff)
qed

lemma solve_click_result:
  "clocks_ok s \<Longrightarrow>
   solve_click s = Inr (blur (s\<lparr>clk := \<lambda>c. if c \<in> set clkNames then Some ''12'' else clk s c\<rparr>) ''solveButton'')"
  by (simp add: solve_click_def clocks_ok_def solve_loop)

lemma random_time_bounds:
  assumes "0 \<le> r" "r < 1"
  shows "1 \<le> \<lfloor>r * 12\<rfloor> + 1 \<and> \<lfloor>r * 12\<rfloor> + 1 \<le> (12::int)"
proof -
  have "0 \<le> \<lfloor>r * 12\<rfloor>" using assms(1) by simp
  moreover have "\<lfloor>r * 12\<rfloor> < 12" using assms(2) by (simp add: floor_less_iff)
  ultimately show ?thesis by simp
qed

lemma scrambleLoop_result:
  assumes "set cs \<subseteq> dom (clk s)" "distinct cs"
  shows "\<exists>s'. scrambleLoop s rnd i cs = Inr s' \<and> s'\<lparr>clk := clk s\<rparr> = s
    \<and> (\<forall>c. c \<notin> set cs \<longrightarrow> clk s' c = clk s c)
    \<and> (\<forall>j < length cs. clk s' (cs ! j) = Some (padTime (Num (\<lfloor>rnd (i + j) * 12\<rfloor> + 1))))"
  using assms
proof (induction cs arbitrary: s i)
  case Nil
  then show ?case by simp
next
  case (Cons c cs)
  let ?s1 = "s\<lparr>clk := (clk s)(c \<mapsto> padTime (Num (\<lfloor>rnd i * 12\<rfloor> + 1)))\<rparr>"
  have c: "c \<in> dom (clk s)" "c \<notin> set cs" using Cons.prems by auto
  have "set cs \<subseteq> dom (clk ?s1)" "distinct cs" using Cons.prems by auto
  then obtain s' where s': "scrambleLoop ?s1 rnd (Suc i) cs = Inr s'" "s'\<lparr>clk := clk ?s1\<rparr> = ?s1"
    "\<forall>c'. c' \<notin> set cs \<longrightarrow> clk s' c' = clk ?s1 c'"
    "\<forall>j < length cs. clk s' (cs ! j) = Some (padTime (Num (\<lfloor>rnd (Suc i + j) * 12\<rfloor> + 1)))"
    using Cons.IH by blast
  have "scrambleLoop s rnd i (c # cs) = Inr s'" using c s'(1) by simp
  moreover have "s'\<lparr>clk := clk s\<rparr> = s"
    using arg_cong[OF s'(2), of "\<lambda>t. t\<lparr>clk := clk s\<rparr>"] by simp
  moreover have "\<forall>j < length (c # cs). clk s' ((c # cs) ! j) = Some (padTime (Num (\<lfloor>rnd (i + j) * 12\<rfloor> + 1)))"
  proof (intro allI impI)
    fix j assume "j < length (c # cs)"
    then show "clk s' ((c # cs) ! j) = Some (padTime (Num (\<lfloor>rnd (i + j) * 12\<rfloor> + 1)))"
      using s'(3,4) c by (cases j) auto
  qed
  ultimately show ?case using s'(3) by auto
qed

lemma scramble_click_page_ok:
  assumes "page_ok s" "\<forall>i. 0 \<le> rnd i \<and> rnd i < 1"
  shows "\<exists>s'. scramble_click s rnd = Inr s' \<and> page_ok s' \<and> pin s' = pin s
    \<and> activeElement s' = (if activeElement s = Some ''scrambleButton'' then None else activeElement s) \<and>
    (\<forall>j < length clkNames. clk s' (clkNames ! j) = Some (padTime (Num (\<lfloor>rnd j * 12\<rfloor> + 1))))"
proof -
  have dom: "dom (clk s) = set clkNames" using assms(1) by (simp add: page_ok_def clocks_ok_def)
  obtain t where t: "scrambleLoop s rnd 0 clkNames = Inr t" "t\<lparr>clk := clk s\<rparr> = s"
      "\<forall>c. c \<notin> set clkNames \<longrightarrow> clk t c = clk s c"
      "\<forall>j < length clkNames. clk t (clkNames ! j) = Some (padTime (Num (\<lfloor>rnd j * 12\<rfloor> + 1)))"
    using scrambleLoop_result[of clkNames s rnd 0] dom clkNames_distinct by auto
  have pin: "pin t = pin s" "border t = border s" "activeElement t = activeElement s"
    using arg_cong[OF t(2), of pin] arg_cong[OF t(2), of border] arg_cong[OF t(2), of activeElement]
    by simp_all
  have ok: "clk t c \<noteq> None \<and> clock_ok (the (clk t c))" if c: "c \<in> set clkNames" for c
  proof -
    obtain j where j: "j < length clkNames" "c = clkNames ! j" using c by (auto simp: in_set_conv_nth)
    have "1 \<le> \<lfloor>rnd j * 12\<rfloor> + 1 \<and> \<lfloor>rnd j * 12\<rfloor> + 1 \<le> (12::int)"
      using random_time_bounds[of "rnd j"] assms(2) by blast
    then have "clock_ok (padTime (Num (\<lfloor>rnd j * 12\<rfloor> + 1)))" unfolding clock_ok_iff by blast
    then show ?thesis using t(4) j by simp
  qed
  have "dom (clk t) = set clkNames"
  proof
    show "dom (clk t) \<subseteq> set clkNames" using t(3) dom by auto
    show "set clkNames \<subseteq> dom (clk t)" using ok by auto
  qed
  then have "page_ok t" using ok pin assms(1)
    by (simp add: page_ok_def clocks_ok_def pins_ok_def faces_ok_def)
  moreover have "scramble_click s rnd = Inr (blur t ''scrambleButton'')" using t(1) by (simp add: scramble_click_def)
  ultimately show ?thesis using t(4) pin by (simp add: blur_activeElement)
qed

lemma solve_click_page_ok:
  assumes "page_ok s"
  shows "\<exists>s'. solve_click s = Inr s' \<and> page_ok s' \<and> all_twelve s' \<and> pin s' = pin s
    \<and> activeElement s' = (if activeElement s = Some ''solveButton'' then None else activeElement s)"
proof -
  have ok: "clocks_ok s" using assms by (simp add: page_ok_def)
  let ?s' = "s\<lparr>clk := \<lambda>c. if c \<in> set clkNames then Some ''12'' else clk s c\<rparr>"
  have "dom (clk ?s') = set clkNames" using ok by (auto simp: clocks_ok_def split: if_splits)
  then have "page_ok ?s'" using assms by (simp add: page_ok_def clocks_ok_def pins_ok_def)
  moreover have "all_twelve (blur ?s' ''solveButton'')" by (simp add: all_twelve_def)
  ultimately show ?thesis using solve_click_result[OF ok] by (simp add: blur_activeElement)
qed

text \<open>
  C21: when both face elements exist, the space bar switches the controlled face,
  whichever face is being controlled, paints the border of the newly controlled face red
  and the other white, and changes no clock, pin or alert.
\<close>

theorem keydown_space_toggles:
  assumes "faces_ok s"
  shows "\<exists>s'. keydown s '' '' = Inr s' \<and> controllingFront s' = (\<not> controllingFront s)
    \<and> border s' ''frontFace'' = Some (if controllingFront s' then ''red'' else ''white'')
    \<and> border s' ''backFace'' = Some (if controllingFront s' then ''white'' else ''red'')
    \<and> clk s' = clk s \<and> pin s' = pin s \<and> alerts s' = alerts s"
proof -
  have "keydown s '' '' = toggleControllingFront s"
    by (cases "controllingFront s")
       (simp_all add: keydown_def keyMappingsBack_def pinMappings_def btnMappings_def)
  then show ?thesis using toggleControllingFront_ok[OF assms] by simp
qed

text \<open>
  C29: when a face element is missing, the space bar throws a TypeError from the border
  assignment, whichever face is being controlled.
\<close>

theorem keydown_space_missing_face:
  assumes "border s ''frontFace'' = None \<or> border s ''backFace'' = None"
  shows "keydown s '' '' = Inl (TypeError ''Cannot read properties of null (reading style)'')"
proof -
  have "keydown s '' '' = toggleControllingFront s"
    by (cases "controllingFront s")
       (simp_all add: keydown_def keyMappingsBack_def pinMappings_def btnMappings_def)
  then show ?thesis using assms
    by (cases "controllingFront s")
       (auto simp: toggleControllingFront_def set_borderColor_def domIff Let_def)
qed

text \<open>
  C20: while the front face is controlled, each pin key sets the four front pins UR, DR,
  DL, UL to the truthiness of its four table entries and each back pin to the negation.
\<close>

theorem keydown_front_pins:
  assumes "dom (pin s) = set pinNames" "controllingFront s" "(k, args) \<in> set pinMappings"
  shows "\<exists>s'. keydown s k = Inr s' \<and>
    [pin s' ''pur'', pin s' ''pdr'', pin s' ''pdl'', pin s' ''pul''] = map (\<lambda>a. Some (truthy a)) args
    \<and> [pin s' ''bpur'', pin s' ''bpdr'', pin s' ''bpdl'', pin s' ''bpul''] = map (\<lambda>a. Some (\<not> truthy a)) args"
  using assms(3) unfolding pinMappings_def
  by (simp only: set_simps insert_iff empty_iff prod.inject, elim disjE FalseE conjE;
      simp add: assms(1,2) keydown_def pinMappings_def setPinPositions_result truthy_def)

end
