(* ===== verification/Loading.thy ===== *)
theory Loading
  imports Controls
begin

text \<open>
  The top level of src/script.js, run once when the page loads. \<open>getElements\<close>
  (lines 41--47) builds the objects \<open>clk\<close>, \<open>btn\<close> and \<open>pin\<close> (61--63) from
  \<open>document.getElementById\<close>, which returns \<open>null\<close> (here \<open>None\<close>) for an id the
  HTML lacks; \<open>frontFace\<close> and \<open>backFace\<close> are looked up the same way (65--66).
  The script then assigns the change handlers of the pin pairs (\<open>invertPins\<close>, 70--82),
  the click handlers of the front and back buttons (115--129), sets
  \<open>controllingFront\<close> (273), raises the four front pins (296) and assigns the handlers of
  the solve and scramble buttons (300--301, 308--309). Assigning a property through
  \<open>null\<close> throws a TypeError, which aborts the rest of the script.

  The HTML document is a map from ids to elements; the page of Page.thy is the part of it
  the script reads and writes (\<open>page_of\<close>). The handlers themselves are the operations
  of Pins.thy and Controls.thy, dispatched by the event model of the root theory.
\<close>

section \<open>Definitions\<close>

text \<open>The three properties of an element the script touches.\<close>

record element =
  innerHTML :: string
  checked :: bool
  borderColor :: string

type_synonym document = "name \<rightharpoonup> element"

definition getElements :: "document \<Rightarrow> name list \<Rightarrow> name \<rightharpoonup> element" where
  "getElements doc ids = foldl (\<lambda>elements id. elements(id := doc id)) Map.empty ids"

text \<open>\<open>x.onchange = ...\<close> or \<open>x.onclick = ...\<close> on the element \<open>x\<close> (or \<open>null\<close>).\<close>

definition set_handler :: "element option \<Rightarrow> unit js" where
  "set_handler e = (case e of None \<Rightarrow> Inl (TypeError ''Cannot set properties of null'') | Some _ \<Rightarrow> Inr ())"

definition invertPins :: "element option \<Rightarrow> element option \<Rightarrow> unit js" where
  "invertPins pinFront pinBack = bindE (set_handler pinFront) (\<lambda>_. set_handler pinBack)"

text \<open>The page state of Page.thy read off the element objects, with the initial value of
  \<open>controllingFront\<close> (line 273) and no pending alert.\<close>

definition page_of ::
  "(name \<rightharpoonup> element) \<Rightarrow> (name \<rightharpoonup> element) \<Rightarrow> element option \<Rightarrow> element option \<Rightarrow> page" where
  "page_of clkEls pinEls frontFace backFace =
     \<lparr>clk = map_option innerHTML \<circ> clkEls, pin = map_option checked \<circ> pinEls,
      border = map_option borderColor \<circ> (Map.empty(''frontFace'' := frontFace, ''backFace'' := backFace)),
      activeElement = None, controllingFront = True, alerts = []\<rparr>"

text \<open>Lines 79--82: \<open>invertPins\<close> on the four front/back pairs, in this order.\<close>

definition installPinHandlers :: "(name \<rightharpoonup> element) \<Rightarrow> unit js" where
  "installPinHandlers pinEls = forE (\<lambda>_ (f, b). invertPins (pinEls f) (pinEls b)) () pinPairs"

text \<open>Lines 115--129: the \<open>onclick\<close> assignments of the front buttons, then of the back buttons.\<close>

definition installButtonHandlers :: "(name \<rightharpoonup> element) \<Rightarrow> unit js" where
  "installButtonHandlers btnEls =
     bindE (forE (\<lambda>_ btnName. set_handler (btnEls btnName)) () (take 8 btnNames)) (\<lambda>_.
       forE (\<lambda>_ btnName. set_handler (btnEls btnName)) () (drop 8 btnNames))"

text \<open>Lines 300--301 and 308--309: the solve and scramble buttons' \<open>onclick\<close>.\<close>

definition installFeatureButtons :: "document \<Rightarrow> unit js" where
  "installFeatureButtons doc =
     (let solveButton = doc ''solveButton'' in
      bindE (set_handler solveButton) (\<lambda>_.
        let scrambleButton = doc ''scrambleButton'' in set_handler scrambleButton))"

text \<open>The whole script in the order of its top-level statements: the element lookups
  (61--66), the pin and button handlers, \<open>controllingFront = true\<close> (273, part of
  \<open>page_of\<close>), \<open>setPinPositions(1, 1, 1, 1)\<close> (296) and the feature buttons.\<close>

definition script_run :: "document \<Rightarrow> page js" where
  "script_run doc =
     (let clkEls = getElements doc clkNames;
          btnEls = getElements doc btnNames;
          pinEls = getElements doc pinNames;
          frontFace = doc ''frontFace'';
          backFace = doc ''backFace''
      in bindE (installPinHandlers pinEls) (\<lambda>_.
         bindE (installButtonHandlers btnEls) (\<lambda>_.
         bindE (setPinPositions (page_of clkEls pinEls frontFace backFace) 1 1 1 1) (\<lambda>s.
         bindE (installFeatureButtons doc) (\<lambda>_. Inr s)))))"

lemmas script_run_steps = script_run_def installPinHandlers_def installButtonHandlers_def
  installFeatureButtons_def Let_def

text \<open>Specification side: the ids the load writes through, and a well-formed document.\<close>

definition load_ids :: "name list" where
  "load_ids = pinNames @ btnNames @ [''solveButton'', ''scrambleButton'']"

definition html_ok :: "document \<Rightarrow> bool" where
  "html_ok doc \<longleftrightarrow> list_all (\<lambda>n. doc n \<noteq> None) (load_ids @ [''frontFace'', ''backFace''])
     \<and> list_all (\<lambda>c. case doc c of None \<Rightarrow> False | Some e \<Rightarrow> clock_ok (innerHTML e)) clkNames"

section \<open>Lemmas\<close>

lemma getElements_foldl:
  "foldl (\<lambda>elements id. elements(id := doc id)) m ids = (\<lambda>x. if x \<in> set ids then doc x else m x)"
  by (induction ids arbitrary: m) (auto simp: fun_eq_iff)

lemma getElements_restrict: "getElements doc ids = doc |` set ids"
  by (simp add: getElements_def getElements_foldl restrict_map_def fun_eq_iff)

lemma forE_set_handler:
  "forE (\<lambda>_ b. set_handler (m b)) () xs =
     (if set xs \<subseteq> dom m then Inr () else Inl (TypeError ''Cannot set properties of null''))"
  by (induction xs) (auto simp: set_handler_def split: option.splits)

lemma forE_invertPins:
  "forE (\<lambda>_ (f, b). invertPins (m f) (m b)) () ps =
     (if \<forall>(f, b) \<in> set ps. f \<in> dom m \<and> b \<in> dom m then Inr ()
      else Inl (TypeError ''Cannot set properties of null''))"
  by (induction ps) (auto simp: invertPins_def set_handler_def split: option.splits)

lemma pinPairs_pinNames: "(\<forall>(f, b) \<in> set pinPairs. P f \<and> P b) \<longleftrightarrow> (\<forall>p \<in> set pinNames. P p)"
  by (auto simp: pinPairs_def pinNames_def)

lemma load_ids_subset:
  "set load_ids \<subseteq> dom doc \<longleftrightarrow>
   set pinNames \<subseteq> dom doc \<and> set btnNames \<subseteq> dom doc \<and> ''solveButton'' \<in> dom doc
   \<and> ''scrambleButton'' \<in> dom doc"
  by (auto simp: load_ids_def)

lemma script_run_pins:
  assumes "set pinNames \<subseteq> dom doc"
  shows "forE (\<lambda>_ (f, b). invertPins ((doc |` set pinNames) f) ((doc |` set pinNames) b)) () pinPairs = Inr ()"
proof -
  have "\<forall>p \<in> set pinNames. p \<in> dom (doc |` set pinNames)" using assms by auto
  then show ?thesis using pinPairs_pinNames[of "\<lambda>p. p \<in> dom (doc |` set pinNames)"]
    by (simp add: forE_invertPins)
qed

lemma script_run_buttons:
  "set (take 8 btnNames) \<subseteq> dom (doc |` set btnNames) \<and> set (drop 8 btnNames) \<subseteq> dom (doc |` set btnNames)
   \<longleftrightarrow> set btnNames \<subseteq> dom doc"
  using btnNames_split by auto

lemma script_run_result:
  assumes "set load_ids \<subseteq> dom doc"
  shows "\<exists>s. script_run doc = Inr s \<and>
    setPinPositions (page_of (doc |` set clkNames) (doc |` set pinNames) (doc ''frontFace'') (doc ''backFace''))
      1 1 1 1 = Inr s"
proof -
  note ids = assms[unfolded load_ids_subset]
  let ?p = "page_of (doc |` set clkNames) (doc |` set pinNames) (doc ''frontFace'') (doc ''backFace'')"
  have dom: "dom (pin ?p) = set pinNames" using ids by (auto simp: page_of_def)
  obtain s where s: "setPinPositions ?p 1 1 1 1 = Inr s" using setPinPositions_result[OF dom] by blast
  have h: "set_handler (doc ''solveButton'') = Inr ()" "set_handler (doc ''scrambleButton'') = Inr ()"
    using ids by (auto simp: set_handler_def)
  have "script_run doc = Inr s"
    using ids s h script_run_pins[of doc] script_run_buttons[of doc]
    by (simp add: script_run_steps getElements_restrict forE_set_handler)
  then show ?thesis using s by blast
qed

lemma script_run_fails:
  assumes "\<not> set load_ids \<subseteq> dom doc"
  shows "script_run doc = Inl (TypeError ''Cannot set properties of null'')"
proof -
  let ?p = "page_of (doc |` set clkNames) (doc |` set pinNames) (doc ''frontFace'') (doc ''backFace'')"
  consider (pins) "\<not> set pinNames \<subseteq> dom doc"
    | (btns) "set pinNames \<subseteq> dom doc" "\<not> set btnNames \<subseteq> dom doc"
    | (feats) "set pinNames \<subseteq> dom doc" "set btnNames \<subseteq> dom doc"
        "doc ''solveButton'' = None \<or> doc ''scrambleButton'' = None"
    using assms unfolding load_ids_subset by blast
  then show ?thesis
  proof cases
    case pins
    then have "\<not> (\<forall>p \<in> set pinNames. p \<in> dom (doc |` set pinNames))" by auto
    then have "\<not> (\<forall>(f, b) \<in> set pinPairs. f \<in> dom (doc |` set pinNames) \<and> b \<in> dom (doc |` set pinNames))"
      using pinPairs_pinNames[of "\<lambda>p. p \<in> dom (doc |` set pinNames)"] by simp
    then have e: "forE (\<lambda>_ (f, b). invertPins ((doc |` set pinNames) f) ((doc |` set pinNames) b)) () pinPairs
        = Inl (TypeError ''Cannot set properties of null'')"
      unfolding forE_invertPins by (rule if_not_P)
    show ?thesis by (simp add: script_run_steps getElements_restrict e)
  next
    case btns
    let ?b = "doc |` set btnNames"
    have "\<not> set (take 8 btnNames) \<subseteq> dom ?b \<or>
        (set (take 8 btnNames) \<subseteq> dom ?b \<and> \<not> set (drop 8 btnNames) \<subseteq> dom ?b)"
      using btns(2) script_run_buttons[of doc] by blast
    then show ?thesis
      by (elim disjE conjE)
         (simp_all add: script_run_steps getElements_restrict forE_set_handler script_run_pins[OF btns(1)]
           del: dom_restrict)
  next
    case feats
    have dom: "dom (pin ?p) = set pinNames" using feats(1) by (auto simp: page_of_def)
    obtain s where s: "setPinPositions ?p 1 1 1 1 = Inr s" using setPinPositions_result[OF dom] by blast
    have "set_handler (doc ''solveButton'') = Inl (TypeError ''Cannot set properties of null'')
      \<or> (set_handler (doc ''solveButton'') = Inr ()
         \<and> set_handler (doc ''scrambleButton'') = Inl (TypeError ''Cannot set properties of null''))"
      using feats(3) by (cases "doc ''solveButton''") (auto simp: set_handler_def)
    then show ?thesis using feats(1,2) s script_run_pins[of doc] script_run_buttons[of doc]
      by (auto simp: script_run_steps getElements_restrict forE_set_handler)
  qed
qed

text \<open>
  C28: loading the script on an HTML document succeeds exactly when every pin, every
  button and the solve and scramble buttons exist; otherwise it throws the TypeError of a
  handler assignment through null. Missing clocks or faces do not stop the load.
\<close>

theorem script_run_succeeds:
  "(\<exists>s. script_run doc = Inr s) \<longleftrightarrow> set load_ids \<subseteq> dom doc"
proof
  assume "\<exists>s. script_run doc = Inr s"
  then obtain s where s: "script_run doc = Inr s" ..
  show "set load_ids \<subseteq> dom doc"
  proof (rule ccontr)
    assume "\<not> set load_ids \<subseteq> dom doc"
    then have "script_run doc = Inl (TypeError ''Cannot set properties of null'')" by (rule script_run_fails)
    with s show False by simp
  qed
next
  assume "set load_ids \<subseteq> dom doc"
  then show "\<exists>s. script_run doc = Inr s" using script_run_result[of doc] by blast
qed

lemma html_ok_iff:
  "html_ok doc \<longleftrightarrow> set load_ids \<subseteq> dom doc \<and> ''frontFace'' \<in> dom doc \<and> ''backFace'' \<in> dom doc
     \<and> (\<forall>c \<in> set clkNames. \<exists>e. doc c = Some e \<and> clock_ok (innerHTML e))"
  by (auto simp: html_ok_def list_all_iff split: option.splits)

lemma html_ok_load_ids: "html_ok doc \<Longrightarrow> set load_ids \<subseteq> dom doc"
  by (simp add: html_ok_iff)

lemma page_of_ok:
  assumes "html_ok doc"
  shows "clocks_ok (page_of (doc |` set clkNames) pinEls (doc ''frontFace'') (doc ''backFace''))
    \<and> faces_ok (page_of clkEls pinEls (doc ''frontFace'') (doc ''backFace''))"
proof -
  note h = assms[unfolded html_ok_iff]
  let ?p = "page_of (doc |` set clkNames) pinEls (doc ''frontFace'') (doc ''backFace'')"
  have "dom (clk ?p) = set clkNames" using h by (auto simp: page_of_def)
  moreover have "\<forall>c \<in> set clkNames. clock_ok (the (clk ?p c))" using h by (auto simp: page_of_def)
  moreover have "faces_ok (page_of clkEls pinEls (doc ''frontFace'') (doc ''backFace''))"
    using h by (auto simp: page_of_def faces_ok_def)
  ultimately show ?thesis by (simp add: clocks_ok_def)
qed

lemma script_run_loaded:
  assumes "html_ok doc" "script_run doc = Inr s"
  shows "page_ok s \<and> controllingFront s \<and> alerts s = []
    \<and> clk s = map_option innerHTML \<circ> (doc |` set clkNames)
    \<and> (\<forall>p \<in> set pinNames. pin s p = Some (p \<in> set (take 4 pinNames)))"
proof -
  note h = assms(1)[unfolded html_ok_iff]
  let ?p = "page_of (doc |` set clkNames) (doc |` set pinNames) (doc ''frontFace'') (doc ''backFace'')"
  obtain s' where s': "script_run doc = Inr s'" "setPinPositions ?p 1 1 1 1 = Inr s'"
    using script_run_result h by blast
  then have s: "setPinPositions ?p 1 1 1 1 = Inr s" using assms(2) by simp
  have dom: "dom (pin ?p) = set pinNames" using h by (auto simp: page_of_def load_ids_def)
  have r: "s = ?p\<lparr>pin := (pin ?p)(''pur'' \<mapsto> True, ''pdr'' \<mapsto> True, ''pdl'' \<mapsto> True, ''pul'' \<mapsto> True,
      ''bpur'' \<mapsto> False, ''bpdr'' \<mapsto> False, ''bpdl'' \<mapsto> False, ''bpul'' \<mapsto> False)\<rparr>"
    using s setPinPositions_result[OF dom] by (simp add: truthy_def)
  have "pins_ok s" using setPinPositions_pins_ok[OF dom s] .
  moreover have "clk s = clk ?p" "border s = border ?p" by (simp_all add: r)
  then have "clocks_ok s \<and> faces_ok s"
    using page_of_ok[OF assms(1), of "doc |` set pinNames" "doc |` set clkNames"]
    by (simp add: clocks_ok_def faces_ok_def)
  moreover have "\<forall>p \<in> set pinNames. pin s p = Some (p \<in> set (take 4 pinNames))"
    by (simp add: r pinNames_def)
  ultimately show ?thesis by (simp add: page_ok_def r page_of_def)
qed

text \<open>
  C27: loading the script on an HTML document whose ids are all present and whose clocks
  show well-formed texts succeeds and gives a well-formed page: the clocks show the
  document's texts, every front pin is raised and every back pin lowered, the front face
  is controlled and no alert is pending.
\<close>

theorem script_run_page_ok:
  assumes "html_ok doc"
  shows "\<exists>s. script_run doc = Inr s \<and> page_ok s \<and> controllingFront s \<and> alerts s = []
    \<and> clk s = map_option innerHTML \<circ> (doc |` set clkNames)
    \<and> (\<forall>p \<in> set pinNames. pin s p = Some (p \<in> set (take 4 pinNames)))"
proof -
  obtain s where "script_run doc = Inr s"
    using script_run_result[OF html_ok_load_ids[OF assms]] by blast
  then show ?thesis using script_run_loaded[OF assms] by blast
qed

end
