(* ===== verification/Refinement.thy ===== *)
theory Refinement
  imports Loading
begin

text \<open>
  The script against the abstract puzzle of Puzzle.thy. Each clock, pin and corner id of
  src/script.js is the name of a face, spot or corner under the naming scheme of the
  comment at lines 10--18 (\<open>c\<close> for clocks, \<open>p\<close> for pins, a leading \<open>b\<close> on the
  back); \<open>abs_puzzle\<close> reads a page as a puzzle (each clock's number, and the raised
  face of each corner's pin pair). The lemmas show that the string predicates and tables
  of the script agree with the typed topology, that \<open>getActiveNeighbors\<close> computes
  exactly the names of \<open>resolve\<close>, and that \<open>applyMove\<close> refines \<open>move\<close>.
\<close>

section \<open>Definitions\<close>

fun corner_name :: "corner \<Rightarrow> name" where
  "corner_name UL = ''ul''"
| "corner_name UR = ''ur''"
| "corner_name DR = ''dr''"
| "corner_name DL = ''dl''"

fun spot_name :: "spot \<Rightarrow> name" where
  "spot_name (Corner k) = corner_name k"
| "spot_name EdgeU = ''u''"
| "spot_name EdgeR = ''r''"
| "spot_name EdgeD = ''d''"
| "spot_name EdgeL = ''l''"
| "spot_name Centre = ''c''"

definition face_prefix :: "face \<Rightarrow> name" where
  "face_prefix f = (case f of Front \<Rightarrow> [] | Back \<Rightarrow> ''b'')"

definition dial_name :: "face \<Rightarrow> spot \<Rightarrow> name" where
  "dial_name f sp = face_prefix f @ ''c'' @ spot_name sp"

definition pin_name :: "face \<Rightarrow> corner \<Rightarrow> name" where
  "pin_name f k = face_prefix f @ ''p'' @ corner_name k"

definition abs_puzzle :: "page \<Rightarrow> puzzle" where
  "abs_puzzle s =
     \<lparr>dial = \<lambda>f sp. dial_value (the (clk s (dial_name f sp))),
      raised = \<lambda>k. if pin s (pin_name Front k) = Some True then Front else Back\<rparr>"

section \<open>Lemmas\<close>

subsection \<open>The string tables agree with the typed topology\<close>

lemma clkNames_dial_names:
  "clkNames = map (\<lambda>(f, sp). dial_name f sp) [(f, sp). f \<leftarrow> [Front, Back], sp \<leftarrow> spots]"
  by (simp add: clkNames_def dial_name_def face_prefix_def spots_def)

lemma pinNames_pin_names:
  "take 4 pinNames = map (pin_name Front) [UL, UR, DR, DL]"
  "drop 4 pinNames = map (pin_name Back) [UL, UR, DR, DL]"
  by (simp_all add: pinNames_def pin_name_def face_prefix_def)

lemma corners_names: "corners = map corner_name [UL, UR, DR, DL]"
  by (simp add: corners_def)

lemma isBack_dial_name [simp]: "isBack (dial_name f sp) \<longleftrightarrow> f = Back"
  by (cases f) (simp_all add: dial_name_def face_prefix_def isBack_def js_index_def)

lemma corner_list [simp]: "k \<in> set [UL, UR, DR, DL]"
  by (cases k) simp_all

lemma corner_name_length [simp]: "length (corner_name k) = 2"
  by (cases k) simp_all

lemma isCorner_dial_name [simp]: "isCorner (dial_name f sp) \<longleftrightarrow> (\<exists>c. sp = Corner c)"
  by (cases f; cases sp) (simp_all add: dial_name_def face_prefix_def isCorner_def js_index_def)

lemma getComplementOfClk_dial_name [simp]:
  "getComplementOfClk (dial_name f sp) = dial_name (other f) sp"
  by (cases f) (simp_all add: dial_name_def face_prefix_def getComplementOfClk_def isBack_def
      js_index_def other_def)

lemma getNeighborsOfPin_pin_name:
  "getNeighborsOfPin (pin_name f k) = Some (map (dial_name f) (pin_spots k))"
  by (cases f; cases k) (simp_all add: getNeighborsOfPin_def pinClkGraph_def pin_name_def
      dial_name_def face_prefix_def)

lemma pin_name_pair: "(pin_name Front k, pin_name Back k) \<in> set pinPairs"
  by (cases k) (simp_all add: pinPairs_def pin_name_def face_prefix_def)

lemma corner_name_prefixes:
  "CHR ''p'' # corner_name k = pin_name Front k"
  "CHR ''c'' # corner_name k = dial_name Front (Corner k)"
  "CHR ''b'' # CHR ''c'' # corner_name k = dial_name Back (Corner k)"
  by (simp_all add: pin_name_def dial_name_def face_prefix_def)

subsection \<open>The resolver computes the abstract resolve set\<close>

lemma dial_ids_UNIV: "set [(f, sp). f \<leftarrow> [Front, Back], sp \<leftarrow> spots] = UNIV"
proof -
  have "x \<in> set [(f, sp). f \<leftarrow> [Front, Back], sp \<leftarrow> spots]" for x
  proof -
    obtain f sp where x: "x = (f, sp)" by (cases x)
    have "sp \<in> set spots" using enum_UNIV[where 'a = spot] by (simp add: enum_spot_def)
    then show ?thesis using x by (cases f) auto
  qed
  then show ?thesis by blast
qed

lemma dial_name_inj: "dial_name f sp = dial_name g sp' \<longleftrightarrow> f = g \<and> sp = sp'"
proof
  have "distinct (map (\<lambda>(f, sp). dial_name f sp) [(f, sp). f \<leftarrow> [Front, Back], sp \<leftarrow> spots])"
    using clkNames_distinct by (simp only: clkNames_dial_names)
  then have "inj_on (\<lambda>(f, sp). dial_name f sp) (set [(f, sp). f \<leftarrow> [Front, Back], sp \<leftarrow> spots])"
    by (rule distinct_map[THEN iffD1, THEN conjunct2])
  then have inj: "inj (\<lambda>(f, sp). dial_name f sp)" by (simp only: dial_ids_UNIV)
  assume eq: "dial_name f sp = dial_name g sp'"
  have "(f, sp) = (g, sp')" using injD[OF inj, of "(f, sp)" "(g, sp')"] eq by simp
  then show "f = g \<and> sp = sp'" by simp
qed simp

lemma clkNames_range: "set clkNames = range (\<lambda>(f, sp). dial_name f sp)"
  by (simp only: clkNames_dial_names set_map dial_ids_UNIV)

lemma pin_raised_abs:
  assumes "pins_ok s"
  shows "pin s (pin_name f k) = Some True \<longleftrightarrow> raised (abs_puzzle s) k = f"
proof -
  obtain v where v: "pin s (pin_name Front k) = Some v" "pin s (pin_name Back k) = Some (\<not> v)"
    using pins_ok_pair[OF assms pin_name_pair] by blast
  then show ?thesis by (cases f; cases v) (simp_all add: abs_puzzle_def)
qed

lemma bex_corner_list: "(\<exists>p \<in> set (map g [UL, UR, DR, DL]). Q p) \<longleftrightarrow> (\<exists>k. Q (g k))"
  by (metis corner_list imageE image_eqI set_map)

lemma set_raised_neighbors_pin_names:
  "set (raised_neighbors s (map (pin_name F) [UL, UR, DR, DL])) =
   (\<lambda>(f, sp). dial_name f sp) ` {(F, sp) | k' sp. pin s (pin_name F k') = Some True \<and> sp \<in> set (pin_spots k')}"
proof (rule set_eqI)
  fix x
  have "x \<in> set (raised_neighbors s (map (pin_name F) [UL, UR, DR, DL])) \<longleftrightarrow>
      (\<exists>k'. pin s (pin_name F k') = Some True \<and> x \<in> set (map (dial_name F) (pin_spots k')))"
    by (simp only: set_raised_neighbors bex_corner_list getNeighborsOfPin_pin_name option.sel)
  also have "\<dots> \<longleftrightarrow> x \<in> (\<lambda>(f, sp). dial_name f sp) `
      {(F, sp) | k' sp. pin s (pin_name F k') = Some True \<and> sp \<in> set (pin_spots k')}"
    by (simp only: set_map) force
  finally show "x \<in> set (raised_neighbors s (map (pin_name F) [UL, UR, DR, DL])) \<longleftrightarrow> x \<in> (\<lambda>(f, sp). dial_name f sp) `
      {(F, sp) | k' sp. pin s (pin_name F k') = Some True \<and> sp \<in> set (pin_spots k')}" .
qed

lemma complements_dial_names:
  "getComplementOfClk ` {c \<in> (\<lambda>(f, sp). dial_name f sp) ` A. isCorner c} =
   (\<lambda>(f, sp). dial_name f sp) ` {(other f, Corner c) | f c. (f, Corner c) \<in> A}"
  by (auto simp: image_def) blast

lemma getActiveNeighbors_abs:
  assumes "pins_ok s" "getActiveNeighbors s (corner_name k) = Inr ns"
  shows "set ns = (\<lambda>(f, sp). dial_name f sp) ` resolve (abs_puzzle s) k"
proof -
  let ?p = "abs_puzzle s"
  let ?F = "raised ?p k"
  have k: "corner_name k \<in> set corners" by (cases k) (simp_all add: corners_def)
  have ps: "(if pin s (''p'' @ corner_name k) = Some True then take 4 pinNames else drop 4 pinNames)
      = map (pin_name ?F) [UL, UR, DR, DL]"
    by (simp add: corner_name_prefixes pinNames_pin_names abs_puzzle_def)
  have ns: "ns = js_Set (addComplements (raised_neighbors s (map (pin_name ?F) [UL, UR, DR, DL])))"
    using getActiveNeighbors_ok[OF assms(1) k] assms(2) ps by simp
  have eng: "{(?F, sp) | k' sp. pin s (pin_name ?F k') = Some True \<and> sp \<in> set (pin_spots k')}
      = engaged ?p k"
    using pin_raised_abs[OF assms(1)] by (auto simp: engaged_def)
  show ?thesis
    unfolding ns set_js_Set set_addComplements set_raised_neighbors_pin_names eng
      complements_dial_names resolve_def image_Un ..
qed

lemma dial_name_clkNames [simp]: "dial_name f sp \<in> set clkNames"
  by (auto simp: clkNames_range)

lemma clock_ok_twelve: "clock_ok h \<Longrightarrow> h = ''12'' \<longleftrightarrow> dial_value h = 12"
proof -
  assume "clock_ok h"
  then obtain n where n: "1 \<le> n" "n \<le> 12" "h = padTime (Num n)" by (auto simp: clock_ok_iff)
  have t: "padTime (Num 12) = ''12''" "dial_value ''12'' = 12" by code_simp+
  have v: "dial_value h = n" using n by simp
  show ?thesis
  proof
    assume "h = ''12''"
    then show "dial_value h = 12" using t by simp
  next
    assume "dial_value h = 12"
    then show "h = ''12''" using v n t by simp
  qed
qed

lemma all_twelve_solved: "clocks_ok s \<Longrightarrow> all_twelve s \<longleftrightarrow> solved (abs_puzzle s)"
proof -
  assume ok: "clocks_ok s"
  have "clk s (dial_name f sp) = Some ''12'' \<longleftrightarrow> dial (abs_puzzle s) f sp = 12" for f sp
  proof -
    obtain h where "clk s (dial_name f sp) = Some h" "clock_ok h"
      using clocks_ok_at[OF ok, of "dial_name f sp"] by auto
    then show ?thesis using clock_ok_twelve by (auto simp: abs_puzzle_def)
  qed
  then show ?thesis by (auto simp: all_twelve_def solved_def clkNames_range)
qed

lemma dial_value_bumped:
  "dial_value (bumped h (dial_name f sp) d) = cyc12 (dial_value h) (face_dir f d)"
proof -
  have "0 \<le> cyc12 v e" for v e using cyc12_range[of v e] by linarith
  then show ?thesis by (cases f) (simp_all add: bumped_def face_dir_def)
qed

lemma abs_turn_set:
  assumes "set ns = (\<lambda>(f, sp). dial_name f sp) ` R"
  shows "abs_puzzle (turn_set s (set ns) d) =
    (abs_puzzle s)\<lparr>dial := \<lambda>f sp. if (f, sp) \<in> R
       then cyc12 (dial (abs_puzzle s) f sp) (face_dir f d) else dial (abs_puzzle s) f sp\<rparr>"
proof -
  have mem: "dial_name f sp \<in> set ns \<longleftrightarrow> (f, sp) \<in> R" for f sp
    using assms by (auto simp: dial_name_inj)
  show ?thesis
    by (simp add: abs_puzzle_def turn_set_def mem dial_value_bumped fun_eq_iff)
qed

lemma applyMove_abs:
  assumes "page_ok s" "d \<in> {1, -1}" "applyMove s (corner_name k) d = Inr s'"
  shows "abs_puzzle s' = move (abs_puzzle s) k d \<and>
    alerts s' = alerts s @ (if solved (move (abs_puzzle s) k d) then [''Solved!''] else [])"
proof -
  have k: "corner_name k \<in> set corners" by (cases k) (simp_all add: corners_def)
  obtain ns where ns: "getActiveNeighbors s (corner_name k) = Inr ns" "set ns \<subseteq> set clkNames"
    and r: "applyMove s (corner_name k) d = Inr (if all_twelve (turn_set s (set ns) d)
      then (turn_set s (set ns) d)\<lparr>alerts := alerts s @ [''Solved!'']\<rparr>
      else turn_set s (set ns) d)"
    using applyMove_result[OF assms(1) k assms(2)] by blast
  have ok: "clocks_ok s" "pins_ok s" using assms(1) by (simp_all add: page_ok_def)
  have abs: "abs_puzzle (turn_set s (set ns) d) = move (abs_puzzle s) k d"
    using abs_turn_set[OF getActiveNeighbors_abs[OF ok(2) ns(1)]] by (simp add: move_def)
  have "all_twelve (turn_set s (set ns) d) \<longleftrightarrow> solved (move (abs_puzzle s) k d)"
    using all_twelve_solved[OF clocks_ok_turn_set[OF ok(1) ns(2) assms(2)]] abs by simp
  moreover have "abs_puzzle (t\<lparr>alerts := a\<rparr>) = abs_puzzle t" for t a by (simp add: abs_puzzle_def)
  ultimately show ?thesis using r assms(3) abs by (auto simp: turn_set_def)
qed

subsection \<open>Pins, clocks and whole moves\<close>

lemma pin_name_inj: "pin_name f k = pin_name g k' \<longleftrightarrow> f = g \<and> k = k'"
  by (cases f; cases g; cases k; cases k') (simp_all add: pin_name_def face_prefix_def)

lemma abs_puzzle_clk_same:
  "pin t = pin s \<Longrightarrow> raised (abs_puzzle t) = raised (abs_puzzle s)"
  "clk t = clk s \<Longrightarrow> dial (abs_puzzle t) = dial (abs_puzzle s)"
  by (simp_all add: abs_puzzle_def)

lemma clocks_ok_dials_ok: "clocks_ok s \<Longrightarrow> dials_ok (abs_puzzle s)"
proof -
  assume ok: "clocks_ok s"
  have "1 \<le> dial (abs_puzzle s) f sp \<and> dial (abs_puzzle s) f sp \<le> 12" for f sp
  proof -
    obtain h where "clk s (dial_name f sp) = Some h" "clock_ok h"
      using clocks_ok_at[OF ok, of "dial_name f sp"] by auto
    then show ?thesis by (auto simp: abs_puzzle_def clock_ok_iff)
  qed
  then show ?thesis by (simp add: dials_ok_def)
qed

lemma clk_eq_from_abs:
  assumes "clocks_ok s" "clocks_ok t" "dial (abs_puzzle s) = dial (abs_puzzle t)"
  shows "clk s = clk t"
proof
  fix c
  show "clk s c = clk t c"
  proof (cases "c \<in> set clkNames")
    case False
    then have "c \<notin> dom (clk s)" "c \<notin> dom (clk t)" using assms(1,2) by (auto simp: clocks_ok_def)
    then show ?thesis by (simp add: domIff)
  next
    case True
    then obtain f sp where c: "c = dial_name f sp" by (auto simp: clkNames_range)
    obtain h where h: "clk s c = Some h" "clock_ok h" using clocks_ok_at[OF assms(1) True] by auto
    obtain h' where h': "clk t c = Some h'" "clock_ok h'" using clocks_ok_at[OF assms(2) True] by auto
    have "dial_value h = dial_value h'"
      using fun_cong[OF fun_cong[OF assms(3), of f], of sp] h h' c by (simp add: abs_puzzle_def)
    then show ?thesis using h h' by (auto simp: clock_ok_iff)
  qed
qed

lemma pin_click_abs:
  assumes "pins_ok s" "pin_click s (pin_name f k) = Inr s'"
  shows "abs_puzzle s' = flip_pin (abs_puzzle s) k"
proof -
  obtain v where v: "pin s (pin_name Front k) = Some v" "pin s (pin_name Back k) = Some (\<not> v)"
    using pins_ok_pair[OF assms(1) pin_name_pair] by blast
  have "pin_click s (pin_name f k) = Inr (s\<lparr>pin := (pin s)(pin_name Front k \<mapsto> \<not> v, pin_name Back k \<mapsto> v)\<rparr>)"
    using pin_click_pair[OF assms(1) pin_name_pair _ v(1)] by (cases f) auto
  then have s': "s' = s\<lparr>pin := (pin s)(pin_name Front k \<mapsto> \<not> v, pin_name Back k \<mapsto> v)\<rparr>"
    using assms(2) by simp
  show ?thesis
    using v by (cases v) (auto simp: s' abs_puzzle_def flip_pin_def other_def pin_name_inj fun_eq_iff)
qed

lemma applyMove_pins: 
  assumes "page_ok s" "k \<in> set corners" "d \<in> {1, -1}" "applyMove s k d = Inr s'"
  shows "pin s' = pin s"
  using applyMove_result[OF assms(1-3)] assms(4) by (auto simp: turn_set_def)

lemma applyMove_step:
  assumes "page_ok s" "d \<in> {1, -1}" "applyMove s (corner_name k) d = Inr s'"
  shows "page_ok s' \<and> abs_puzzle s' = move (abs_puzzle s) k d \<and> pin s' = pin s"
proof -
  have k: "corner_name k \<in> set corners" by (cases k) (simp_all add: corners_def)
  show ?thesis using applyMove_page_ok[OF assms(1) k assms(2,3)] applyMove_abs[OF assms]
      applyMove_pins[OF assms(1) k assms(2,3)] by blast
qed

lemma clock_text_eq_iff:
  assumes "clocks_ok s" "clocks_ok t"
  shows "clk t (dial_name f sp) = clk s (dial_name f sp) \<longleftrightarrow>
    dial (abs_puzzle t) f sp = dial (abs_puzzle s) f sp"
proof -
  obtain h where h: "clk s (dial_name f sp) = Some h" "clock_ok h"
    using clocks_ok_at[OF assms(1), of "dial_name f sp"] by auto
  obtain h' where h': "clk t (dial_name f sp) = Some h'" "clock_ok h'"
    using clocks_ok_at[OF assms(2), of "dial_name f sp"] by auto
  show ?thesis using h h' by (auto simp: abs_puzzle_def clock_ok_iff)
qed

lemma applyMove_changes:
  assumes "page_ok s" "d \<in> {1, -1}" "applyMove s (corner_name k) d = Inr s'"
  shows "clk s' (dial_name f sp) \<noteq> clk s (dial_name f sp) \<longleftrightarrow> (f, sp) \<in> resolve (abs_puzzle s) k"
proof -
  have "page_ok s'" "abs_puzzle s' = move (abs_puzzle s) k d"
    using applyMove_step[OF assms] by blast+
  moreover have "dials_ok (abs_puzzle s)" using assms(1) clocks_ok_dials_ok by (simp add: page_ok_def)
  ultimately show ?thesis using assms(1) clock_text_eq_iff move_changes[OF _ assms(2)]
    by (simp add: page_ok_def)
qed

subsection \<open>The script implements the puzzle\<close>

text \<open>
  C1: on a page with well-formed clocks and complementary pins, pressing corner k in
  direction d (+1 or -1) never throws, keeps the page well formed, turns the clocks
  exactly as the abstract move of the puzzle model does, and appends the alert
  "Solved!" exactly when the resulting puzzle is solved.
\<close>

theorem applyMove_refines:
  assumes "page_ok s" "d \<in> {1, -1}"
  shows "\<exists>s'. applyMove s (corner_name k) d = Inr s' \<and> page_ok s'
    \<and> abs_puzzle s' = move (abs_puzzle s) k d
    \<and> alerts s' = alerts s @ (if solved (move (abs_puzzle s) k d) then [''Solved!''] else [])"
proof -
  have k: "corner_name k \<in> set corners" by (cases k) (simp_all add: corners_def)
  obtain s' where s': "applyMove s (corner_name k) d = Inr s'"
    using applyMove_result[OF assms(1) k assms(2)] by blast
  then show ?thesis using applyMove_page_ok[OF assms(1) k assms(2)] applyMove_abs[OF assms] by blast
qed

text \<open>
  C2: with complementary pins, the activation resolver returns a duplicate-free list whose
  elements are exactly the clock ids of the abstract resolve set: the dials around the
  raised pins of the acting face, plus the other-face counterpart of every such corner.
\<close>

theorem getActiveNeighbors_resolve:
  assumes "pins_ok s"
  shows "\<exists>ns. getActiveNeighbors s (corner_name k) = Inr ns \<and> distinct ns
    \<and> set ns = (\<lambda>(f, sp). dial_name f sp) ` resolve (abs_puzzle s) k"
proof -
  have k: "corner_name k \<in> set corners" by (cases k) (simp_all add: corners_def)
  then obtain ns where "getActiveNeighbors s (corner_name k) = Inr ns" "distinct ns"
    using getActiveNeighbors_pressed[OF assms k] by blast
  then show ?thesis using getActiveNeighbors_abs[OF assms] by blast
qed

text \<open>
  C6: pressing a corner in one direction and then the same corner in the other direction
  restores every clock text and every pin of a well-formed page.
\<close>

theorem applyMove_inverse:
  assumes "page_ok s" "d \<in> {1, -1}"
    "applyMove s (corner_name k) d = Inr s1" "applyMove s1 (corner_name k) (- d) = Inr s2"
  shows "clk s2 = clk s \<and> pin s2 = pin s"
proof -
  have d': "- d \<in> {1, -1}" using assms(2) by auto
  have 1: "page_ok s1 \<and> abs_puzzle s1 = move (abs_puzzle s) k d \<and> pin s1 = pin s"
    using applyMove_step[OF assms(1,2,3)] .
  then have 2: "page_ok s2 \<and> abs_puzzle s2 = move (abs_puzzle s1) k (- d) \<and> pin s2 = pin s1"
    using applyMove_step[OF _ d' assms(4)] by blast
  have "dials_ok (abs_puzzle s)" using assms(1) clocks_ok_dials_ok by (simp add: page_ok_def)
  then have "abs_puzzle s2 = abs_puzzle s" using 1 2 move_inverse by simp
  then have "clk s2 = clk s" using clk_eq_from_abs 1 2 assms(1) by (simp add: page_ok_def)
  then show ?thesis using 1 2 by simp
qed

text \<open>
  C7: two presses on a well-formed page commute: pressing k then k' leaves the same clock
  texts as pressing k' then k.
\<close>

theorem applyMove_commute:
  assumes "page_ok s" "d \<in> {1, -1}" "d' \<in> {1, -1}"
    "applyMove s (corner_name k) d = Inr s1" "applyMove s1 (corner_name k') d' = Inr s2"
    "applyMove s (corner_name k') d' = Inr t1" "applyMove t1 (corner_name k) d = Inr t2"
  shows "clk s2 = clk t2"
proof -
  have s1: "page_ok s1 \<and> abs_puzzle s1 = move (abs_puzzle s) k d"
    using applyMove_step[OF assms(1,2,4)] by blast
  have s2: "page_ok s2 \<and> abs_puzzle s2 = move (abs_puzzle s1) k' d'"
    using s1 applyMove_step[OF _ assms(3,5)] by blast
  have t1: "page_ok t1 \<and> abs_puzzle t1 = move (abs_puzzle s) k' d'"
    using applyMove_step[OF assms(1,3,6)] by blast
  have t2: "page_ok t2 \<and> abs_puzzle t2 = move (abs_puzzle t1) k d"
    using t1 applyMove_step[OF _ assms(2,7)] by blast
  have "abs_puzzle s2 = abs_puzzle t2" using s1 s2 t1 t2 move_commute by simp
  then show ?thesis using clk_eq_from_abs s2 t2 by (simp add: page_ok_def)
qed

text \<open>
  C9: clicking either checkbox of a corner's pin pair never throws, keeps the pins
  complementary, leaves the clocks alone, and flips that corner's pin in the abstract model.
\<close>

theorem pin_click_refines:
  assumes "pins_ok s"
  shows "\<exists>s'. pin_click s (pin_name f k) = Inr s' \<and> pins_ok s' \<and> clk s' = clk s
    \<and> abs_puzzle s' = flip_pin (abs_puzzle s) k"
proof -
  have "pin_name f k \<in> set pinNames" by (cases f; cases k) (simp_all add: pin_name_def face_prefix_def pinNames_def)
  then obtain s' where "pin_click s (pin_name f k) = Inr s'" "pins_ok s'" "clk s' = clk s"
    using pin_click_pins_ok[OF assms] by blast
  then show ?thesis using pin_click_abs[OF assms] by blast
qed

text \<open>
  C22: when all four front pins are raised, a press at any corner changes exactly the
  nine front clocks and the four back corner clocks (13 clocks), and no other.
\<close>

theorem all_front_pins_press:
  assumes "page_ok s" "\<forall>k'. pin s (pin_name Front k') = Some True" "d \<in> {1, -1}"
  shows "\<exists>s'. applyMove s (corner_name k) d = Inr s' \<and>
    (\<forall>f sp. clk s' (dial_name f sp) \<noteq> clk s (dial_name f sp) \<longleftrightarrow> f = Front \<or> (\<exists>c. sp = Corner c))"
proof -
  have k: "corner_name k \<in> set corners" by (cases k) (simp_all add: corners_def)
  obtain s' where s': "applyMove s (corner_name k) d = Inr s'"
    using applyMove_result[OF assms(1) k assms(3)] by blast
  have "raised (abs_puzzle s) k' = Front" for k' using assms(2) by (simp add: abs_puzzle_def)
  then have "(f, sp) \<in> resolve (abs_puzzle s) k \<longleftrightarrow> f = Front \<or> (\<exists>c. sp = Corner c)" for f sp
    using resolve_uniform[of "abs_puzzle s" k] by simp
  then show ?thesis using s' applyMove_changes[OF assms(1,3) s'] by blast
qed

text \<open>
  C23: when only the front pin at UL is raised, a press at UL changes exactly five clocks:
  the four front clocks around that pin and the back UL corner.
\<close>

theorem single_pin_press:
  assumes "page_ok s" "pin s ''pul'' = Some True" "pin s ''pur'' = Some False"
    "pin s ''pdr'' = Some False" "pin s ''pdl'' = Some False" "d \<in> {1, -1}"
  shows "\<exists>s'. applyMove s ''ul'' d = Inr s' \<and>
    (\<forall>f sp. clk s' (dial_name f sp) \<noteq> clk s (dial_name f sp) \<longleftrightarrow>
       (f, sp) \<in> {(Front, Corner UL), (Front, EdgeU), (Front, Centre), (Front, EdgeL), (Back, Corner UL)})"
proof -
  have k: "''ul'' \<in> set corners" by (simp add: corners_def)
  obtain s' where s': "applyMove s (corner_name UL) d = Inr s'"
    using applyMove_result[OF assms(1) k assms(6)] by auto
  have r: "raised (abs_puzzle s) = (\<lambda>k'. if k' = UL then Front else Back)"
    using assms(2-5) by (auto simp: abs_puzzle_def pin_name_def face_prefix_def fun_eq_iff all_corner_iff)
  have "(f, sp) \<in> resolve (abs_puzzle s) UL \<longleftrightarrow>
      (f, sp) \<in> {(Front, Corner UL), (Front, EdgeU), (Front, Centre), (Front, EdgeL), (Back, Corner UL)}" for f sp
    by (cases f; cases sp) (auto simp: r mem_resolve mem_engaged other_def corner_in_pin_spots all_corner_iff)
  then show ?thesis using s' applyMove_changes[OF assms(1,6) s'] by auto
qed

subsection \<open>Buttons, solve, scramble and pin placement\<close>

lemma btn_name_front:
  assumes "m \<in> {CHR ''m'', CHR ''p''}"
  shows "''b'' @ corner_name k @ [m] \<in> set (take 8 btnNames)"
  using assms by (cases k) (auto simp: btnNames_def)

text \<open>
  C10: on a well-formed page, the front button and the back button of corner k with
  direction letter m (m minus, p plus) both perform the abstract move of corner k in
  that direction, and keep the page well formed.
\<close>

theorem button_refines:
  assumes "page_ok s" "m \<in> {CHR ''m'', CHR ''p''}" "b \<in> {''b'' @ corner_name k @ [m], ''bb'' @ corner_name k @ [m]}"
  shows "\<exists>s'. btn_click s b = Inr s' \<and> page_ok s'
    \<and> abs_puzzle s' = move (abs_puzzle s) k (if m = CHR ''m'' then -1 else 1)"
proof -
  let ?f = "''b'' @ corner_name k @ [m]"
  let ?d = "if m = CHR ''m'' then -1 else (1::int)"
  have f: "?f \<in> set (take 8 btnNames)" using btn_name_front[OF assms(2)] .
  have d: "?d \<in> {1, -1}" by simp
  have "btn_click s ?f = applyMove s (corner_name k) ?d"
    using btn_click_front[OF f] by (simp add: js_index_def nth_append)
  moreover have "btn_click s (''b'' @ ?f) = btn_click s ?f" using btn_click_back[OF f] .
  ultimately have b: "btn_click s b = applyMove s (corner_name k) ?d" using assms(3) by auto
  have k: "corner_name k \<in> set corners" by (cases k) (simp_all add: corners_def)
  obtain s' where s': "applyMove s (corner_name k) ?d = Inr s'"
    using applyMove_result[OF assms(1) k d] by blast
  then show ?thesis using b applyMove_step[OF assms(1) d s'] by auto
qed

text \<open>
  C11: on a page with well-formed clocks, the solved check never throws and reports true
  exactly when the abstract puzzle is solved (every dial at 12).
\<close>

theorem isSolved_refines: "clocks_ok s \<Longrightarrow> isSolved s = Inr (solved (abs_puzzle s))"
  using isSolved_eq all_twelve_solved by simp

text \<open>
  C13: the solve button sets every dial of the puzzle to 12 without touching the pins,
  and keeps the page well formed.
\<close>

theorem solve_click_solves:
  assumes "page_ok s"
  shows "\<exists>s'. solve_click s = Inr s' \<and> page_ok s' \<and> solved (abs_puzzle s')
    \<and> raised (abs_puzzle s') = raised (abs_puzzle s)"
proof -
  obtain s' where s': "solve_click s = Inr s'" "page_ok s'" "all_twelve s'" "pin s' = pin s"
    using solve_click_page_ok[OF assms] by blast
  have "solved (abs_puzzle s')" using s'(2,3) all_twelve_solved by (simp add: page_ok_def)
  then show ?thesis using s' abs_puzzle_clk_same(1)[OF s'(4)] by blast
qed

text \<open>
  C14: with random draws in [0, 1), the scramble button sets the j-th clock of clkNames
  to floor(12 r_j) + 1, a value in 1..12, keeps the pins, and keeps the page well formed.
\<close>

theorem scramble_click_refines:
  assumes "page_ok s" "\<forall>i. 0 \<le> rnd i \<and> rnd i < 1"
  shows "\<exists>s'. scramble_click s rnd = Inr s' \<and> page_ok s' \<and> dials_ok (abs_puzzle s')
    \<and> raised (abs_puzzle s') = raised (abs_puzzle s)
    \<and> (\<forall>j < length clkNames. dial_value (the (clk s' (clkNames ! j))) = \<lfloor>rnd j * 12\<rfloor> + 1)"
proof -
  obtain s' where s': "scramble_click s rnd = Inr s'" "page_ok s'"
    "\<forall>j < length clkNames. clk s' (clkNames ! j) = Some (padTime (Num (\<lfloor>rnd j * 12\<rfloor> + 1)))"
    using scramble_click_page_ok[OF assms] by blast
  have "pin s' = pin s"
    using s'(1) scrambleLoop_result[of clkNames s rnd 0] clkNames_distinct assms(1)
    by (auto simp: scramble_click_def page_ok_def clocks_ok_def dest!: arg_cong[of _ _ pin])
  moreover have "dials_ok (abs_puzzle s')" using s'(2) clocks_ok_dials_ok by (simp add: page_ok_def)
  moreover have "\<forall>j < length clkNames. dial_value (the (clk s' (clkNames ! j))) = \<lfloor>rnd j * 12\<rfloor> + 1"
  proof (intro allI impI)
    fix j assume "j < length clkNames"
    moreover have "0 \<le> \<lfloor>rnd j * 12\<rfloor> + 1" using random_time_bounds[of "rnd j"] assms(2) by simp
    ultimately show "dial_value (the (clk s' (clkNames ! j))) = \<lfloor>rnd j * 12\<rfloor> + 1" using s'(3) by simp
  qed
  ultimately show ?thesis using s' abs_puzzle_clk_same(1) by blast
qed

text \<open>
  C12: setPinPositions on a well-formed page raises the front pin of each corner whose
  argument is truthy and the back pin of each other corner, and changes no clock.
\<close>

theorem setPinPositions_refines:
  assumes "page_ok s"
  shows "\<exists>s'. setPinPositions s ur dr dl ul = Inr s' \<and> page_ok s' \<and> clk s' = clk s
    \<and> raised (abs_puzzle s') =
        (\<lambda>k. if truthy (case k of UL \<Rightarrow> ul | UR \<Rightarrow> ur | DR \<Rightarrow> dr | DL \<Rightarrow> dl) then Front else Back)"
proof -
  have dom: "dom (pin s) = set pinNames" using assms by (simp add: page_ok_def pins_ok_def)
  obtain s' where s': "setPinPositions s ur dr dl ul = Inr s'" using setPinPositions_result[OF dom] by blast
  have "raised (abs_puzzle s') k =
      (if truthy (case k of UL \<Rightarrow> ul | UR \<Rightarrow> ur | DR \<Rightarrow> dr | DL \<Rightarrow> dl) then Front else Back)" for k
    using s' setPinPositions_result[OF dom]
    by (cases k) (auto simp: abs_puzzle_def pin_name_def face_prefix_def)
  then show ?thesis using s' setPinPositions_page_ok[OF assms s'] by auto
qed

subsection \<open>The scenarios of the specification\<close>

lemma clock_text_value: "clock_ok h \<Longrightarrow> h = padTime (Num (dial_value h))"
  by (auto simp: clock_ok_iff)

lemma padTime_faces: "padTime (Num 1) = ''01''" "padTime (Num 11) = ''11''" "padTime (Num 12) = ''12''"
  by code_simp+

text \<open>
  C31: the first scenario of the specification: with all four front pins raised and every
  clock at 12, pressing any corner clockwise turns the nine front clocks to 01, the four
  back corner clocks to 11, and leaves the other back clocks at 12.
\<close>

theorem scenario_all_front_pins:
  assumes "page_ok s" "\<forall>k'. pin s (pin_name Front k') = Some True"
    "\<forall>f sp. clk s (dial_name f sp) = Some ''12''"
  shows "\<exists>s'. applyMove s (corner_name k) 1 = Inr s' \<and>
    (\<forall>f sp. clk s' (dial_name f sp) =
       Some (if f = Front then ''01'' else if \<exists>c. sp = Corner c then ''11'' else ''12''))"
proof -
  have k: "corner_name k \<in> set corners" by (cases k) (simp_all add: corners_def)
  have d: "(1::int) \<in> {1, -1}" by simp
  obtain s' where s': "applyMove s (corner_name k) 1 = Inr s'"
    using applyMove_result[OF assms(1) k d] by blast
  have st: "page_ok s' \<and> abs_puzzle s' = move (abs_puzzle s) k 1" using applyMove_step[OF assms(1) d s'] by blast
  have r: "\<forall>k'. raised (abs_puzzle s) k' = raised (abs_puzzle s) k"
    using assms(2) by (simp add: abs_puzzle_def)
  have twelve: "dial (abs_puzzle s) f sp = 12" for f sp
    using assms(3) by (simp add: abs_puzzle_def padTime_faces(3)[symmetric])
  have front: "raised (abs_puzzle s) k = Front" using assms(2) by (simp add: abs_puzzle_def)
  have "clk s' (dial_name f sp) =
      Some (if f = Front then ''01'' else if \<exists>c. sp = Corner c then ''11'' else ''12'')" for f sp
  proof -
    obtain h where h: "clk s' (dial_name f sp) = Some h" "clock_ok h"
      using clocks_ok_at[of s' "dial_name f sp"] st by (auto simp: page_ok_def)
    have "dial_value h = dial (abs_puzzle s') f sp" using h by (simp add: abs_puzzle_def)
    also have "\<dots> = (if f = Front then 1 else if \<exists>c. sp = Corner c then 11 else 12)"
      using st resolve_uniform[OF r, of f sp] front twelve
      by (cases f) (auto simp: move_def cyc12_def face_dir_def)
    finally show ?thesis using h clock_text_value[OF h(2)] by (auto simp: padTime_faces)
  qed
  then show ?thesis using s' by blast
qed

text \<open>
  C32: the last scenario of the specification: when a scramble draws a value giving 7 for
  any clock, the scrambled page is not solved and isSolved reports false.
\<close>

theorem scramble_seven_not_solved:
  assumes "page_ok s" "\<forall>i. 0 \<le> rnd i \<and> rnd i < 1" "j < length clkNames" "\<lfloor>rnd j * 12\<rfloor> + 1 = 7"
  shows "\<exists>s'. scramble_click s rnd = Inr s' \<and> isSolved s' = Inr False \<and> \<not> solved (abs_puzzle s')"
proof -
  obtain s' where s': "scramble_click s rnd = Inr s'" "page_ok s'"
    "\<forall>j < length clkNames. clk s' (clkNames ! j) = Some (padTime (Num (\<lfloor>rnd j * 12\<rfloor> + 1)))"
    using scramble_click_page_ok[OF assms(1,2)] by blast
  have "padTime (Num 7) = ''07''" by code_simp
  then have "clk s' (clkNames ! j) = Some ''07''" using s'(3) assms(3,4) by simp
  moreover have "clkNames ! j \<in> set clkNames" using assms(3) by simp
  ultimately have "\<not> all_twelve s'" unfolding all_twelve_def by force
  moreover have "clocks_ok s'" using s'(2) by (simp add: page_ok_def)
  ultimately show ?thesis using s'(1) isSolved_eq all_twelve_solved by simp
qed

end
