(* ===== verification/Clicks.thy ===== *)
theory Clicks
  imports Controls
begin

text \<open>
  The \<open>onclick\<close> handlers the script installs on the 16 buttons (src/script.js lines
  115--129) as data, and the browser's \<open>.click()\<close>, which runs the handler installed
  on an element. A back button's handler calls \<open>btn[frontName].click()\<close>, a dynamic
  dispatch that would loop forever if the table forwarded in a cycle; \<open>click\<close> is
  therefore written with fuel (\<open>None\<close> when the fuel runs out). The lemmas show that
  the installed table is well formed, that two dispatches always suffice (and are needed
  for back buttons), and that with enough fuel the dispatch equals \<open>btn_click\<close> of
  Controls.thy, the model the rest of the development uses for button clicks and for
  the keyboard's \<open>btn[btnMappings[key]].click()\<close>.
\<close>

section \<open>Definitions\<close>

text \<open>The closure each loop installs, with the id it captured.\<close>


datatype onclick = FrontOnclick name | BackOnclick name

text \<open>The handler table after both loops: front buttons first, then back buttons.\<close>

definition button_onclicks :: "name \<rightharpoonup> onclick" where
  "button_onclicks =
     foldl (\<lambda>btn btnName. btn(btnName \<mapsto> BackOnclick btnName))
       (foldl (\<lambda>btn btnName. btn(btnName \<mapsto> FrontOnclick btnName)) Map.empty (take 8 btnNames))
       (drop 8 btnNames)"

text \<open>\<open>btn[btnName].click()\<close> with \<open>n\<close> dispatches of fuel.\<close>

fun click :: "nat \<Rightarrow> (name \<rightharpoonup> onclick) \<Rightarrow> page \<Rightarrow> name \<Rightarrow> page js option" where
  "click 0 handlers s btnName = None"
| "click (Suc n) handlers s btnName =
     (case handlers btnName of
        None \<Rightarrow> Some (Inl (TypeError ''btn[btnName] is undefined''))
      | Some (FrontOnclick b) \<Rightarrow> Some (front_onclick s b)
      | Some (BackOnclick b) \<Rightarrow>
          (let frontName = drop 1 b in
           if handlers frontName = None then Some (Inl (TypeError ''btn[frontName] is undefined''))
           else click n handlers s frontName))"

section \<open>Lemmas\<close>

lemma foldl_map_upd:
  "foldl (\<lambda>m x. m(x \<mapsto> f x)) m0 xs = (\<lambda>y. if y \<in> set xs then Some (f y) else m0 y)"
  by (induction xs arbitrary: m0) (auto simp: fun_eq_iff)

lemma button_onclicks_eq:
  "button_onclicks b =
     (if b \<in> set (drop 8 btnNames) then Some (BackOnclick b)
      else if b \<in> set (take 8 btnNames) then Some (FrontOnclick b) else None)"
  by (simp add: button_onclicks_def foldl_map_upd)

lemma front_back_disjoint: "b \<in> set (take 8 btnNames) \<Longrightarrow> b \<notin> set (drop 8 btnNames)"
  unfolding front_btnNames back_btnNames
  by (simp only: set_simps insert_iff empty_iff, elim disjE FalseE; simp)

lemma front_btn_letter:
  "b \<in> set (take 8 btnNames) \<Longrightarrow> js_index b 3 \<in> {Some (CHR ''m''), Some (CHR ''p'')}"
  unfolding front_btnNames
  by (simp only: set_simps insert_iff empty_iff, elim disjE FalseE; simp add: js_index_def)

lemma back_btn_front:
  assumes "b \<in> set (drop 8 btnNames)"
  shows "drop 1 b \<in> set (take 8 btnNames) \<and> button_onclicks (drop 1 b) = Some (FrontOnclick (drop 1 b))"
proof -
  obtain f where f: "b = ''b'' @ f" "f \<in> set (take 8 btnNames)" using back_btn_names[OF assms] by blast
  then show ?thesis using front_back_disjoint[OF f(2)] by (simp add: button_onclicks_eq)
qed

text \<open>
  C34: the installed handler table is well typed: every button id has exactly one
  onclick, a front button's handler captures its own id, which names a corner and a
  direction letter, and a back button's handler captures its own id, whose front
  counterpart carries a front handler (so the forwarding never reaches another back
  handler); no other id has a handler.
\<close>

theorem button_onclicks_typed:
  "button_onclicks b = Some h \<longleftrightarrow> b \<in> set btnNames \<and>
     (case h of
        FrontOnclick b' \<Rightarrow> b' = b \<and> b \<in> set (take 8 btnNames) \<and> take 2 (drop 1 b) \<in> set corners
          \<and> js_index b 3 \<in> {Some (CHR ''m''), Some (CHR ''p'')}
      | BackOnclick b' \<Rightarrow> b' = b \<and> b \<in> set (drop 8 btnNames)
          \<and> button_onclicks (drop 1 b) = Some (FrontOnclick (drop 1 b)))"
  (is "?L \<longleftrightarrow> ?R")
proof
  assume h: "button_onclicks b = Some h"
  show ?R
  proof (cases "b \<in> set (drop 8 btnNames)")
    case True
    then show ?thesis using h back_btn_front[OF True] btnNames_split by (auto simp: button_onclicks_eq)
  next
    case False
    then have b: "b \<in> set (take 8 btnNames)" "h = FrontOnclick b"
      using h by (auto simp: button_onclicks_eq split: if_splits)
    then show ?thesis using front_btn_names[OF b(1)] front_btn_letter[OF b(1)] by simp
  qed
next
  assume r: ?R
  show "button_onclicks b = Some h"
  proof (cases h)
    case (FrontOnclick b')
    then show ?thesis using r front_back_disjoint by (auto simp: button_onclicks_eq)
  next
    case (BackOnclick b')
    then show ?thesis using r by (auto simp: button_onclicks_eq)
  qed
qed

lemma click_front:
  "b \<in> set (take 8 btnNames) \<Longrightarrow> click (Suc n) button_onclicks s b = Some (front_onclick s b)"
  using front_back_disjoint[of b] by (simp add: button_onclicks_eq)

lemma click_back:
  assumes "b \<in> set (drop 8 btnNames)"
  shows "click (Suc n) button_onclicks s b = click n button_onclicks s (drop 1 b)"
  using assms back_btn_front[OF assms] by (simp add: button_onclicks_eq)

lemma click_none:
  "b \<notin> set btnNames \<Longrightarrow> click (Suc n) button_onclicks s b = Some (Inl (TypeError ''btn[btnName] is undefined''))"
  using btnNames_split by (simp add: button_onclicks_eq)

lemma btn_click_front_onclick: "b \<in> set (take 8 btnNames) \<Longrightarrow> btn_click s b = front_onclick s b"
  by (simp add: btn_click.simps[of s b])

text \<open>
  C35: the .click() dispatch through the installed handlers terminates: a front button or
  an unknown id is handled with one dispatch, a back button with two (its forwarding
  reaches a front handler), and with less fuel the dispatch does not finish.
\<close>

theorem click_terminates:
  "click n button_onclicks s b \<noteq> None \<longleftrightarrow> 2 \<le> n \<or> (n = 1 \<and> b \<notin> set (drop 8 btnNames))"
proof (cases n)
  case 0
  then show ?thesis by simp
next
  case (Suc m)
  show ?thesis
  proof (cases "b \<in> set (drop 8 btnNames)")
    case True
    then have "drop 1 b \<in> set (take 8 btnNames)" using back_btn_front by blast
    then show ?thesis using Suc True click_back[OF True] click_front by (cases m) auto
  next
    case False
    then show ?thesis using Suc click_front click_none btnNames_split by (cases "b \<in> set btnNames") auto
  qed
qed

text \<open>With enough fuel the dispatch through the table agrees with \<open>btn_click\<close>, the
  recursive model of the same handlers that the other theories use.\<close>

lemma click_btn_click:
  assumes "2 \<le> n"
  shows "click n button_onclicks s b = Some (btn_click s b)"
proof -
  obtain m where n: "n = Suc (Suc m)" using assms by (cases n; cases "n - 1") auto
  consider (f) "b \<in> set (take 8 btnNames)" | (k) "b \<in> set (drop 8 btnNames)" | (o) "b \<notin> set btnNames"
    using btnNames_split by blast
  then show ?thesis
  proof cases
    case f
    then show ?thesis using n click_front btn_click_front_onclick by simp
  next
    case k
    then obtain f where f: "b = ''b'' @ f" "f \<in> set (take 8 btnNames)" using back_btn_names by blast
    then show ?thesis using n click_back[OF k] click_front btn_click_back btn_click_front_onclick by simp
  next
    case o
    then have "btn_click s b = Inl (TypeError ''btn[btnName] is undefined'')"
      using btnNames_split by (auto simp: btn_click.simps[of s b])
    then show ?thesis using n click_none[OF o] by simp
  qed
qed

end
