(* ===== verification/Spec2Isabelle.thy ===== *)
theory Spec2Isabelle
  imports Refinement Clicks
begin

text \<open>
  \<^bold>\<open>A verified model of js-clock.\<close> The program (src/script.js, one file) is the
  browser front end of a Rubik's-Clock-style puzzle: 18 clocks (9 per face), 8 pin
  checkboxes (a front/back pair per corner) and 16 buttons (two directions per corner, on
  each face). Pressing a corner button turns the clocks around the raised pins of the
  face selected by that corner's pin, drags every turned corner clock's counterpart on
  the other face, and turns back-face clocks the opposite way. The keyboard drives the
  pins and buttons, with a mirrored table while the back face is controlled; the solve
  and scramble buttons overwrite all clocks.

  \<^bold>\<open>Theories.\<close> Each theory models one part of the script; the definitions keep the
  script's names and follow its statements.
  \<^item> Prelude: fact collections and generic list and map lemmas.
  \<^item> JS_Runtime: the JavaScript the script relies on. A thrown TypeError is the left
    value of \<open>'a js = js_error + 'a\<close>, sequenced by \<open>bindE\<close>; \<open>for ... of\<close> over
    a list is \<open>forE\<close>; \<open>new Set\<close> keeps first occurrences; numbers are
    \<open>jsnum\<close> (an integer or NaN) with \<open>+\<close> and \<open><\<close>; \<open>parseInt\<close> reads leading
    decimal digits after blanks and a sign; number-to-string; \<open>s[i]\<close>.
  \<^item> Topology: the id arrays (lines 49--59), \<open>isBack\<close>, \<open>isCorner\<close> (86--92),
    \<open>pinClkGraph\<close>, \<open>getNeighborsOfPin\<close>, \<open>getComplementOfClk\<close> (133--154).
  \<^item> Page: the record \<open>page\<close> of DOM state the script touches (clock texts, pin
    flags, face border colours, the focused element, \<open>controllingFront\<close>, scheduled
    alerts) and its accessors; a read or write through a missing element throws;
    \<open>blur\<close>, and the browser's \<open>focus\<close> of a clicked element.
  \<^item> Dials: \<open>padTime\<close>, \<open>incrementClk\<close> (94--112); the well-formed clock texts.
  \<^item> Pins: \<open>invertPins\<close>' change handler, the browser's click on a checkbox
    (\<open>pin_click\<close>: toggle, then the handler), \<open>setPinPositions\<close> (197--206);
    invariant \<open>pins_ok\<close>.
  \<^item> Activation: \<open>getActiveNeighbors\<close> (156--174), stage by stage.
  \<^item> Move: \<open>applyMove\<close>, \<open>isSolved\<close> (176--193); invariant \<open>page_ok\<close>.
  \<^item> Controls: the button handlers (114--129), keyboard tables and listener with
    \<open>toggleControllingFront\<close> (208--294), solve and scramble with their final
    \<open>blur()\<close> (298--315).
  \<^item> Clicks: the installed \<open>onclick\<close> table (115--129) as data and the browser's
    \<open>.click()\<close> dispatch through it, with fuel; it equals \<open>btn_click\<close>.
  \<^item> Loading: the top level run at page load: \<open>getElements\<close> (41--47) on an HTML
    document (a map from ids to elements), handler assignments that throw through
    \<open>null\<close>, and \<open>setPinPositions(1, 1, 1, 1)\<close> (296).
  \<^item> Puzzle: an abstract specification written over enumerations (faces, corners,
    spots), with \<open>move\<close>, \<open>resolve\<close>, \<open>flip_pin\<close> and \<open>solved\<close>; no strings.
  \<^item> Refinement: \<open>abs_puzzle\<close> reads a page as a puzzle; the script refines it.
  \<^item> Spec2Isabelle (this theory): user events, their dispatch to the handlers, and
    the pages reachable from a load; the witnesses of all claims.

  \<^bold>\<open>What is proved.\<close>
  \<^item> Refinement: on a well-formed page, \<open>applyMove\<close> performs exactly the
    abstract \<open>move\<close>; alerts exactly when the result is solved (C1).
    \<open>getActiveNeighbors\<close> computes the abstract resolve set (C2). A pin click flips
    the abstract pin (C9). Both buttons of a corner and direction perform the same move
    (C10). \<open>isSolved\<close> decides \<open>solved\<close> (C11). \<open>setPinPositions\<close> sets the
    raised faces (C12). Solve and scramble set the dials as specified, scramble in
    1..12 (C13, C14).
  \<^item> State machine: every reachable page keeps the pins complementary and the clocks
    well formed (C3); every well-formed event is handled without an exception (C4); the
    load itself yields a well-formed page (C27) and succeeds exactly when the elements it
    writes through exist (C28); from every reachable page the solved state is one event
    away (C30).
  \<^item> Moves: a press never is a no-op, it turns the pressed corner on both faces (C5);
    opposite presses cancel (C6); presses commute (C7); the Set's order is irrelevant
    (C8); the scenarios of the specification: 13 and 5 clocks (C22, C23), the exact
    texts 01/11/12 after the first (C31), and a scramble that draws a 7 (C32).
  \<^item> Clocks: the increment is addition modulo 12 in 1..12 (C15), twelve steps are the
    identity (C16), \<open>padTime\<close> and \<open>parseInt\<close> round-trip (C17).
  \<^item> Keyboard: back-face translation mirrors buttons and pins (C18, C19), front pin
    keys (C20), the space bar toggles the face and borders (C21).
  \<^item> Error paths: unknown corner (C24), missing clock (C25), unreadable clock text
    (C26), missing face element (C29).
  \<^item> Focus and dispatch: solve and scramble release the keyboard focus (C33), the
    corner buttons keep it (C36); the installed handler table is well typed (C34);
    \<open>.click()\<close> terminates within two dispatches (C35), and agrees with
    \<open>btn_click\<close> (lemma \<open>click_btn_click\<close>).

  \<^bold>\<open>Bounds and loops.\<close> Every loop of the script runs over a fixed list (ids, pin
  pairs, the resolved clocks) and is structural recursion (\<open>forE\<close>,
  \<open>isSolvedFrom\<close>, \<open>scrambleLoop\<close>); the back-button forwarding \<open>btn_click\<close> is
  a \<open>function\<close> that terminates by the length of the id. The dynamic
  \<open>.click()\<close> dispatch of Clicks.thy is written with fuel; fuel 2 is enough for
  every id (C35), and is exactly what a back button needs.

  \<^bold>\<open>Not modelled.\<close> The browser itself: layout, styles other than the face
  borders, the browser's default actions (a space bar press on a focused button also
  clicks it), the 100 ms delay of the alert (an appended message here). Keyboard focus
  is modelled only as far as the script touches it: a click focuses its element and
  \<open>blur()\<close> releases it. \<open>key in obj\<close> is modelled as a table lookup: properties inherited
  from \<open>Object.prototype\<close> (e.g. \<open>toString\<close>) are not keyboard key names. After a
  thrown TypeError a handler's partial writes persist in the browser; the model returns
  the error value and treats no page after it as reachable, and a load that throws is
  not continued (the handlers installed before the error are not modelled).
\<close>

section \<open>The page as a state machine\<close>

text \<open>
  A user event is a click on a pin checkbox or a button, a key press, or a click on the
  solve or scramble button; \<open>dispatch\<close> runs the handler the script installs for it,
  after the browser has moved the keyboard focus to a clicked element.
  An event is well formed when its element exists (and the scramble's random draws lie in
  [0, 1), as \<open>Math.random\<close> guarantees). The reachable pages are those produced by
  loading the script on a well-formed HTML page and then any sequence of well-formed events.
\<close>

datatype event = ClickPin name | ClickButton name | KeyDown string | ClickSolve
  | ClickScramble "nat \<Rightarrow> real"

fun dispatch :: "page \<Rightarrow> event \<Rightarrow> page js" where
  "dispatch s (ClickPin p) = pin_click (focus s p) p"
| "dispatch s (ClickButton b) = btn_click (focus s b) b"
| "dispatch s (KeyDown k) = keydown s k"
| "dispatch s ClickSolve = solve_click (focus s ''solveButton'')"
| "dispatch s (ClickScramble rnd) = scramble_click (focus s ''scrambleButton'') rnd"

fun event_ok :: "event \<Rightarrow> bool" where
  "event_ok (ClickPin p) \<longleftrightarrow> p \<in> set pinNames"
| "event_ok (ClickButton b) \<longleftrightarrow> b \<in> set btnNames"
| "event_ok (KeyDown k) \<longleftrightarrow> True"
| "event_ok ClickSolve \<longleftrightarrow> True"
| "event_ok (ClickScramble rnd) \<longleftrightarrow> (\<forall>i. 0 \<le> rnd i \<and> rnd i < 1)"

inductive reachable :: "page \<Rightarrow> bool" where
  load: "html_ok doc \<Longrightarrow> script_run doc = Inr s \<Longrightarrow> reachable s"
| step: "reachable s \<Longrightarrow> event_ok e \<Longrightarrow> dispatch s e = Inr s' \<Longrightarrow> reachable s'"

section \<open>Sample pages\<close>

text \<open>The page after loading with every clock at 12, and the same page with only the front
  pin at UL raised.\<close>

definition sample_page :: page where
  "sample_page = \<lparr>clk = map_of (zip clkNames (replicate 18 ''12'')),
     pin = map_of (zip pinNames [True, True, True, True, False, False, False, False]),
     border = [''frontFace'' \<mapsto> ''red'', ''backFace'' \<mapsto> ''white''],
     activeElement = None, controllingFront = True, alerts = []\<rparr>"

text \<open>An HTML document with every id of the script, all clocks at 12.\<close>

definition sample_element :: element where
  "sample_element = \<lparr>innerHTML = ''12'', checked = False, borderColor = ''white''\<rparr>"

definition sample_doc :: document where
  "sample_doc = map_of (map (\<lambda>n. (n, sample_element)) (clkNames @ load_ids @ [''frontFace'', ''backFace'']))"

definition single_pin_page :: page where
  "single_pin_page = sample_page\<lparr>pin :=
     map_of (zip pinNames [True, False, False, False, False, True, True, True])\<rparr>"

text \<open>A page whose UL front clock shows a text parseInt cannot read.\<close>

definition nan_page :: page where
  "nan_page = sample_page\<lparr>clk := (clk sample_page)(''cul'' \<mapsto> ''x'')\<rparr>"

section \<open>Invariants of reachable pages\<close>

lemma dispatch_page_ok:
  assumes "page_ok s" "event_ok e"
  shows "\<exists>s'. dispatch s e = Inr s' \<and> page_ok s'"
proof -
  have ok: "page_ok (focus s n)" for n using assms(1) by simp
  show ?thesis
  proof (cases e)
    case (ClickPin p)
    then obtain s' where "pin_click (focus s p) p = Inr s'" "pins_ok s'" "clk s' = clk s"
        "border s' = border s"
      using pin_click_pins_ok[of "focus s p" p] ok assms(2) by (auto simp: page_ok_def)
    then show ?thesis using ClickPin assms(1) by (auto simp: page_ok_def clocks_ok_def faces_ok_def)
  next
    case (ClickButton b)
    then show ?thesis using btn_click_page_ok[OF ok] assms(2) by auto
  next
    case (KeyDown k)
    then show ?thesis using keydown_page_ok assms(1) by auto
  next
    case ClickSolve
    then show ?thesis using solve_click_page_ok[OF ok] by auto
  next
    case (ClickScramble rnd)
    then have "\<forall>i. 0 \<le> rnd i \<and> rnd i < 1" using assms(2) by simp
    then obtain s' where "scramble_click (focus s ''scrambleButton'') rnd = Inr s'" "page_ok s'"
      using scramble_click_page_ok[OF ok] by blast
    then show ?thesis using ClickScramble by simp
  qed
qed

lemma reachable_inv: "reachable s \<Longrightarrow> page_ok s"
proof (induction rule: reachable.induct)
  case (load doc s)
  then show ?case using script_run_loaded by blast
next
  case (step s e s')
  then show ?case using dispatch_page_ok by fastforce
qed

text \<open>
  C3: on every page reachable from loading the script on a well-formed HTML page by any
  sequence of user events, each corner's front and back pins are set opposite to each
  other, and every clock shows one of the texts 01..12 that padTime writes.
\<close>

theorem reachable_pins_clocks:
  assumes "reachable s"
  shows "(\<forall>(f, b) \<in> set pinPairs. \<exists>v. pin s f = Some v \<and> pin s b = Some (\<not> v))
    \<and> (\<forall>c \<in> set clkNames. \<exists>n. 1 \<le> n \<and> n \<le> 12 \<and> clk s c = Some (padTime (Num n)))"
proof -
  have ok: "page_ok s" using reachable_inv[OF assms] .
  have "\<forall>(f, b) \<in> set pinPairs. \<exists>v. pin s f = Some v \<and> pin s b = Some (\<not> v)"
    using pins_ok_pair ok by (auto simp: page_ok_def)
  moreover have "\<forall>c \<in> set clkNames. \<exists>n. 1 \<le> n \<and> n \<le> 12 \<and> clk s c = Some (padTime (Num n))"
    using clocks_ok_at ok by (fastforce simp: page_ok_def clock_ok_iff)
  ultimately show ?thesis by blast
qed

text \<open>
  C4: on a reachable page, every user event on an existing element (and every scramble
  whose random draws lie in [0, 1)) is handled without a thrown TypeError, and the page
  it produces is reachable again.
\<close>

theorem reachable_progress:
  assumes "reachable s" "event_ok e"
  shows "\<exists>s'. dispatch s e = Inr s' \<and> reachable s'"
  using dispatch_page_ok[OF reachable_inv[OF assms(1)] assms(2)] reachable.step[OF assms] by blast

text \<open>
  C30: from every reachable page the solved puzzle is one event away: the solve button is
  handled without an exception, the page it produces is reachable, and isSolved then
  reports true.
\<close>

theorem reachable_solve:
  assumes "reachable s"
  shows "\<exists>s'. dispatch s ClickSolve = Inr s' \<and> reachable s' \<and> isSolved s' = Inr True"
proof -
  have "page_ok (focus s ''solveButton'')" using reachable_inv[OF assms] by simp
  then obtain s' where s': "dispatch s ClickSolve = Inr s'" "page_ok s'" "all_twelve s'"
    using solve_click_page_ok by fastforce
  have "reachable s'" using reachable.step[OF assms _ s'(1)] by simp
  moreover have "isSolved s' = Inr True" using isSolved_eq s'(2,3) by (simp add: page_ok_def)
  ultimately show ?thesis using s'(1) by simp
qed

text \<open>
  C33: on a reachable page, a click on the solve button, or on the scramble button with
  random draws in [0, 1), is handled without an exception, yields a reachable page, and
  leaves no element with the keyboard focus: the handler's blur() releases the focus the
  click gave the button, so a later space bar press cannot activate it.
\<close>

theorem feature_buttons_release_focus:
  assumes "reachable s" "e = ClickSolve \<or> (\<exists>rnd. e = ClickScramble rnd \<and> (\<forall>i. 0 \<le> rnd i \<and> rnd i < 1))"
  shows "\<exists>s'. dispatch s e = Inr s' \<and> reachable s' \<and> activeElement s' = None"
proof -
  have ok: "page_ok (focus s n)" for n using reachable_inv[OF assms(1)] by simp
  have "\<exists>s'. dispatch s e = Inr s' \<and> activeElement s' = None"
  proof (cases "e = ClickSolve")
    case True
    then show ?thesis using solve_click_page_ok[OF ok] by fastforce
  next
    case False
    then obtain rnd where e: "e = ClickScramble rnd" and r: "\<forall>i. 0 \<le> rnd i \<and> rnd i < 1"
      using assms(2) by blast
    show ?thesis using scramble_click_page_ok[OF ok r, of "''scrambleButton''"] e by auto
  qed
  moreover have "event_ok e" using assms(2) by auto
  ultimately show ?thesis using reachable.step[OF assms(1)] by blast
qed

text \<open>
  C36: unlike the solve and scramble handlers, the corner button handlers never call
  blur(): on a reachable page a click on any of the 16 buttons is handled and leaves
  the keyboard focus on that button.
\<close>

theorem button_click_keeps_focus:
  assumes "reachable s" "b \<in> set btnNames"
  shows "\<exists>s'. dispatch s (ClickButton b) = Inr s' \<and> reachable s' \<and> activeElement s' = Some b"
proof -
  have "page_ok (focus s b)" using reachable_inv[OF assms(1)] by simp
  then obtain s' where s': "btn_click (focus s b) b = Inr s'" "activeElement s' = Some b"
    using btn_click_page_ok[OF _ assms(2)] by fastforce
  have "event_ok (ClickButton b)" using assms(2) by simp
  then show ?thesis using s' reachable.step[OF assms(1)] by fastforce
qed

section \<open>Witnesses\<close>

lemma sample_clk: "c \<in> set clkNames \<Longrightarrow> clk sample_page c = Some ''12''"
  using clkNames_distinct by (simp add: sample_page_def map_of_zip_replicate)

lemma sample_page_ok: "page_ok sample_page"
proof -
  have "clocks_ok sample_page"
    by (simp add: sample_page_def clocks_ok_def dom_map_of_zip map_of_zip_replicate clkNames_distinct)
  moreover have "pins_ok sample_page"
    by (simp add: sample_page_def pins_ok_def dom_map_of_zip pinNames_def pinPairs_def)
  moreover have "faces_ok sample_page" by (auto simp: sample_page_def faces_ok_def)
  ultimately show ?thesis by (simp add: page_ok_def)
qed

theorem applyMove_pressed_corner_witness:
  "\<exists>s'. applyMove sample_page ''ul'' 1 = Inr s' \<and> page_ok s'
    \<and> clk s' ''cul'' = Some ''01'' \<and> clk s' ''bcul'' = Some ''11''"
proof -
  have "''ul'' \<in> set corners" "(1::int) \<in> {1, -1}" by (simp_all add: corners_def)
  moreover have "clk sample_page ''cul'' = Some ''12''" "clk sample_page ''bcul'' = Some ''12''"
    by (simp_all add: sample_clk clkNames_def)
  moreover have "bumped ''12'' ''cul'' 1 = ''01''" "bumped ''12'' ''bcul'' 1 = ''11''"
    by code_simp+
  ultimately show ?thesis using applyMove_pressed_corner[OF sample_page_ok, of "''ul''" 1]
    by simp
qed

lemma single_pin_page_ok: "page_ok single_pin_page"
proof -
  have "clocks_ok single_pin_page"
    using sample_page_ok by (simp add: single_pin_page_def page_ok_def clocks_ok_def)
  moreover have "pins_ok single_pin_page"
    by (simp add: single_pin_page_def pins_ok_def dom_map_of_zip pinNames_def pinPairs_def)
  moreover have "faces_ok single_pin_page"
    using sample_page_ok by (simp add: single_pin_page_def page_ok_def)
  ultimately show ?thesis by (simp add: page_ok_def)
qed

lemma sample_html_ok: "html_ok sample_doc"
  by code_simp

theorem applyMove_refines_witness:
  "\<exists>s'. applyMove sample_page ''ul'' 1 = Inr s' \<and> page_ok s'
    \<and> abs_puzzle s' = move (abs_puzzle sample_page) UL 1
    \<and> alerts s' = alerts sample_page @ (if solved (move (abs_puzzle sample_page) UL 1) then [''Solved!''] else [])"
  using applyMove_refines[OF sample_page_ok, of 1 UL] by simp

theorem getActiveNeighbors_resolve_witness:
  "\<exists>ns. getActiveNeighbors sample_page ''dr'' = Inr ns \<and> distinct ns
    \<and> set ns = (\<lambda>(f, sp). dial_name f sp) ` resolve (abs_puzzle sample_page) DR"
  using getActiveNeighbors_resolve[of sample_page DR] sample_page_ok by (simp add: page_ok_def)

theorem applyMove_inverse_witness:
  "\<exists>s1 s2. applyMove sample_page ''ur'' 1 = Inr s1 \<and> applyMove s1 ''ur'' (-1) = Inr s2
    \<and> clk s2 = clk sample_page \<and> pin s2 = pin sample_page"
proof -
  have d: "(1::int) \<in> {1, -1}" "(-1::int) \<in> {1, -1}" by simp_all
  have k: "corner_name UR \<in> set corners" by (simp add: corners_def)
  obtain s1 where s1: "applyMove sample_page (corner_name UR) 1 = Inr s1"
    using applyMove_result[OF sample_page_ok k d(1)] by blast
  have ok1: "page_ok s1" using applyMove_page_ok[OF sample_page_ok k d(1) s1] .
  obtain s2 where s2: "applyMove s1 (corner_name UR) (-1) = Inr s2"
    using applyMove_result[OF ok1 k d(2)] by blast
  have "clk s2 = clk sample_page \<and> pin s2 = pin sample_page"
    using applyMove_inverse[OF sample_page_ok d(1) s1] s2 by simp
  then show ?thesis using s1 s2 by auto
qed

theorem applyMove_commute_witness:
  "\<exists>s1 s2 t1 t2. applyMove sample_page ''ul'' 1 = Inr s1 \<and> applyMove s1 ''dr'' (-1) = Inr s2
    \<and> applyMove sample_page ''dr'' (-1) = Inr t1 \<and> applyMove t1 ''ul'' 1 = Inr t2
    \<and> clk s2 = clk t2"
proof -
  have d: "(1::int) \<in> {1, -1}" "(-1::int) \<in> {1, -1}" by simp_all
  have k: "corner_name UL \<in> set corners" "corner_name DR \<in> set corners" by (simp_all add: corners_def)
  obtain s1 where s1: "applyMove sample_page (corner_name UL) 1 = Inr s1"
    using applyMove_result[OF sample_page_ok k(1) d(1)] by blast
  have ok1: "page_ok s1" using applyMove_page_ok[OF sample_page_ok k(1) d(1) s1] .
  obtain s2 where s2: "applyMove s1 (corner_name DR) (-1) = Inr s2"
    using applyMove_result[OF ok1 k(2) d(2)] by blast
  obtain t1 where t1: "applyMove sample_page (corner_name DR) (-1) = Inr t1"
    using applyMove_result[OF sample_page_ok k(2) d(2)] by blast
  have okt: "page_ok t1" using applyMove_page_ok[OF sample_page_ok k(2) d(2) t1] .
  obtain t2 where t2: "applyMove t1 (corner_name UL) 1 = Inr t2"
    using applyMove_result[OF okt k(1) d(1)] by blast
  have "clk s2 = clk t2" using applyMove_commute[OF sample_page_ok d(1) d(2) s1 s2 t1 t2] .
  then show ?thesis using s1 s2 t1 t2 by auto
qed

theorem pin_click_refines_witness:
  "\<exists>s'. pin_click sample_page ''bpdl'' = Inr s' \<and> pins_ok s' \<and> clk s' = clk sample_page
    \<and> abs_puzzle s' = flip_pin (abs_puzzle sample_page) DL"
  using pin_click_refines[of sample_page Back DL] sample_page_ok
  by (simp add: page_ok_def pin_name_def face_prefix_def)

theorem all_front_pins_press_witness:
  "\<exists>s'. applyMove sample_page ''dl'' (-1) = Inr s' \<and>
    (\<forall>f sp. clk s' (dial_name f sp) \<noteq> clk sample_page (dial_name f sp) \<longleftrightarrow> f = Front \<or> (\<exists>c. sp = Corner c))"
proof -
  have "\<forall>k'. pin sample_page (pin_name Front k') = Some True"
    by (simp add: all_corner_iff sample_page_def pin_name_def face_prefix_def pinNames_def)
  from all_front_pins_press[OF sample_page_ok this, of "-1" DL] show ?thesis by simp
qed

theorem single_pin_press_witness:
  "\<exists>s'. applyMove single_pin_page ''ul'' 1 = Inr s' \<and>
    (\<forall>f sp. clk s' (dial_name f sp) \<noteq> clk single_pin_page (dial_name f sp) \<longleftrightarrow>
       (f, sp) \<in> {(Front, Corner UL), (Front, EdgeU), (Front, Centre), (Front, EdgeL), (Back, Corner UL)})"
  by (rule single_pin_press[OF single_pin_page_ok])
     (simp_all add: single_pin_page_def pinNames_def)

theorem reachable_pins_clocks_witness:
  "\<exists>s. script_run sample_doc = Inr s \<and>
    (\<forall>(f, b) \<in> set pinPairs. \<exists>v. pin s f = Some v \<and> pin s b = Some (\<not> v))
    \<and> (\<forall>c \<in> set clkNames. \<exists>n. 1 \<le> n \<and> n \<le> 12 \<and> clk s c = Some (padTime (Num n)))"
proof -
  obtain s where s: "script_run sample_doc = Inr s"
    using script_run_result[OF html_ok_load_ids[OF sample_html_ok]] by blast
  have "reachable s" using reachable.load[OF sample_html_ok s] .
  then show ?thesis using reachable_pins_clocks s by blast
qed

theorem reachable_progress_witness:
  "\<exists>s s'. script_run sample_doc = Inr s \<and> dispatch s (ClickButton ''bbdrp'') = Inr s' \<and> reachable s'"
proof -
  obtain s where s: "script_run sample_doc = Inr s"
    using script_run_result[OF html_ok_load_ids[OF sample_html_ok]] by blast
  have r: "reachable s" using reachable.load[OF sample_html_ok s] .
  have "event_ok (ClickButton ''bbdrp'')" by (simp add: btnNames_def)
  then show ?thesis using reachable_progress[OF r] s by blast
qed

lemma sample_clocks_ok: "clocks_ok sample_page"
  using sample_page_ok by (simp add: page_ok_def)

lemma sample_pin_dom: "dom (pin sample_page) = set pinNames"
  using sample_page_ok by (simp add: page_ok_def pins_ok_def)

lemma sample_pins_ok: "pins_ok sample_page"
  using sample_page_ok by (simp add: page_ok_def)

theorem padTime_clock_roundtrip_witness:
  "parseInt (padTime (Num 7)) = Num 7 \<and> length (padTime (Num 7)) = 2"
  using Dials.padTime_clock_roundtrip[of 7] by simp

theorem incrementClk_turns_witness:
  "\<exists>s'. incrementClk sample_page ''bcul'' 1 = Inr s' \<and> clk s' ''cul'' = clk sample_page ''cul''
    \<and> (\<exists>h'. clk s' ''bcul'' = Some h' \<and> clock_ok h' \<and> dial_value h' = 11)"
proof -
  have h: "clk sample_page ''bcul'' = Some ''12''" by (simp add: sample_clk clkNames_def)
  have "dial_value ''12'' = 12" "isBack ''bcul''" by code_simp+
  then show ?thesis using incrementClk_turns[OF h clock_ok_12, of 1] by auto
qed

theorem incrementClk_missing_witness: "\<exists>e. incrementClk sample_page ''cx'' 1 = Inl e"
proof -
  have "clk sample_page ''cx'' = None" by code_simp
  then show ?thesis by (rule incrementClk_missing)
qed

theorem incrementClk_NaN_witness:
  "incrementClk nan_page ''cul'' 1 = Inr (nan_page\<lparr>clk := (clk nan_page)(''cul'' \<mapsto> ''NaN'')\<rparr>)"
proof -
  have "clk nan_page ''cul'' = Some ''x''" by (simp add: nan_page_def)
  moreover have "parseInt ''x'' = NaN" by code_simp
  ultimately show ?thesis by (rule incrementClk_NaN)
qed

theorem incrementClk_twelve_witness:
  "forE (\<lambda>s c. incrementClk s c (-1)) sample_page (replicate 12 ''cc'') = Inr sample_page"
proof -
  have "padTime (Num 12) = ''12''" by code_simp
  then have c: "clk sample_page ''cc'' = Some (padTime (Num 12))" by (simp add: sample_clk clkNames_def)
  have h: "1 \<le> (12::int)" "(12::int) \<le> 12" "(-1::int) \<in> {1, -1}" by simp_all
  show ?thesis by (rule incrementClk_twelve[OF c h])
qed

theorem applyMove_unknown_corner_witness:
  "applyMove sample_page ''uu'' 1 = Inl (TypeError ''pin[name] is undefined'')"
  by (rule Move.applyMove_unknown_corner[OF sample_pins_ok]) (simp add: corners_def)

theorem increments_order_independent_witness:
  "forE (\<lambda>s c. incrementClk s c 1) sample_page [''cul'', ''bcul'', ''cu''] =
   forE (\<lambda>s c. incrementClk s c 1) sample_page [''cu'', ''cul'', ''bcul'']"
  by (rule increments_order_independent[OF sample_clocks_ok]) (auto simp: clkNames_def)

theorem keydown_back_pins_witness:
  "\<exists>s'. keydown (sample_page\<lparr>controllingFront := False\<rparr>) ''j'' = Inr s' \<and>
    [pin s' ''bpul'', pin s' ''bpdl'', pin s' ''bpdr'', pin s' ''bpur''] = [Some True, Some False, Some False, Some False]"
proof -
  have "(''j'', [1, 0, 0, 0]) \<in> set pinMappings" by (simp add: pinMappings_def)
  from keydown_back_pins[OF _ _ this, of "sample_page\<lparr>controllingFront := False\<rparr>"] sample_pin_dom
  show ?thesis by (simp add: truthy_def)
qed

theorem keydown_back_buttons_witness:
  "keydown (sample_page\<lparr>controllingFront := False\<rparr>) ''a'' =
   btn_click (sample_page\<lparr>controllingFront := False\<rparr>) ''burp''"
proof -
  have "(''a'', ''bulm'') \<in> set btnMappings" by (simp add: btnMappings_def)
  from keydown_back_buttons[OF _ this, of "sample_page\<lparr>controllingFront := False\<rparr>"]
  show ?thesis by (simp add: mirror_btn_def mirror_corner_def js_index_def)
qed

theorem keydown_front_pins_witness:
  "\<exists>s'. keydown sample_page ''u'' = Inr s' \<and>
    [pin s' ''pur'', pin s' ''pdr'', pin s' ''pdl'', pin s' ''pul''] = [Some True, Some False, Some False, Some True]
    \<and> [pin s' ''bpur'', pin s' ''bpdr'', pin s' ''bpdl'', pin s' ''bpul''] = [Some False, Some True, Some True, Some False]"
proof -
  have "(''u'', [1, 0, 0, 1]) \<in> set pinMappings" by (simp add: pinMappings_def)
  moreover have "controllingFront sample_page" by (simp add: sample_page_def)
  ultimately show ?thesis using keydown_front_pins[OF sample_pin_dom] by (fastforce simp: truthy_def)
qed

theorem button_refines_witness:
  "\<exists>s'. btn_click sample_page ''bbulp'' = Inr s' \<and> page_ok s'
    \<and> abs_puzzle s' = move (abs_puzzle sample_page) UL 1"
  using button_refines[OF sample_page_ok, of "CHR ''p''" "''bbulp''" UL] by simp

theorem isSolved_refines_witness: "isSolved sample_page = Inr (solved (abs_puzzle sample_page))"
  using isSolved_refines[OF sample_clocks_ok] .

theorem solve_click_solves_witness:
  "\<exists>s'. solve_click sample_page = Inr s' \<and> page_ok s' \<and> solved (abs_puzzle s')
    \<and> raised (abs_puzzle s') = raised (abs_puzzle sample_page)"
  using solve_click_solves[OF sample_page_ok] .

theorem scramble_click_refines_witness:
  "\<exists>s'. scramble_click sample_page (\<lambda>i. 1 / 2) = Inr s' \<and> page_ok s' \<and> dials_ok (abs_puzzle s')
    \<and> dial_value (the (clk s' ''cul'')) = 7"
proof -
  have "\<forall>i. 0 \<le> (\<lambda>i. 1 / 2 :: real) i \<and> (\<lambda>i. 1 / 2 :: real) i < 1" by simp
  from scramble_click_refines[OF sample_page_ok this] obtain s' where
    s': "scramble_click sample_page (\<lambda>i. 1 / 2) = Inr s'" "page_ok s'" "dials_ok (abs_puzzle s')"
      "\<forall>j < length clkNames. dial_value (the (clk s' (clkNames ! j))) = \<lfloor>(1 / 2 :: real) * 12\<rfloor> + 1"
    by blast
  have "dial_value (the (clk s' (clkNames ! 0))) = \<lfloor>(1 / 2 :: real) * 12\<rfloor> + 1"
    using s'(4)[rule_format, of 0] clkNames_distinct by simp
  then have "dial_value (the (clk s' ''cul'')) = 7" by (simp add: clkNames_def)
  then show ?thesis using s' by blast
qed

theorem setPinPositions_refines_witness:
  "\<exists>s'. setPinPositions sample_page 1 0 1 0 = Inr s' \<and> page_ok s' \<and> clk s' = clk sample_page
    \<and> raised (abs_puzzle s') UR = Front \<and> raised (abs_puzzle s') UL = Back"
  using setPinPositions_refines[OF sample_page_ok, of 1 0 1 0] by (auto simp: truthy_def)

theorem script_run_page_ok_witness:
  "\<exists>s. script_run sample_doc = Inr s \<and> page_ok s \<and> controllingFront s
    \<and> pin s ''pul'' = Some True \<and> pin s ''bpul'' = Some False"
  using script_run_page_ok[OF sample_html_ok] by (auto simp: pinNames_def)

theorem keydown_space_toggles_witness:
  "\<exists>s'. keydown sample_page '' '' = Inr s' \<and> \<not> controllingFront s' \<and> border s' ''backFace'' = Some ''red''"
proof -
  have "faces_ok sample_page" using sample_page_ok by (simp add: page_ok_def)
  moreover have "controllingFront sample_page" by (simp add: sample_page_def)
  ultimately show ?thesis using keydown_space_toggles[of sample_page] by auto
qed

theorem keydown_space_missing_face_witness:
  "keydown (sample_page\<lparr>border := Map.empty\<rparr>) '' '' =
   Inl (TypeError ''Cannot read properties of null (reading style)'')"
  by (rule keydown_space_missing_face) simp

theorem scenario_all_front_pins_witness:
  "\<exists>s'. applyMove sample_page ''ul'' 1 = Inr s' \<and> clk s' ''cc'' = Some ''01''
    \<and> clk s' ''bcul'' = Some ''11'' \<and> clk s' ''bcc'' = Some ''12''"
proof -
  have p: "\<forall>k'. pin sample_page (pin_name Front k') = Some True"
    by (simp add: all_corner_iff sample_page_def pin_name_def face_prefix_def pinNames_def)
  have c: "\<forall>f sp. clk sample_page (dial_name f sp) = Some ''12''" by (simp add: sample_clk)
  obtain s' where s': "applyMove sample_page (corner_name UL) 1 = Inr s'"
    and v: "\<forall>f sp. clk s' (dial_name f sp) =
       Some (if f = Front then ''01'' else if \<exists>c. sp = Corner c then ''11'' else ''12'')"
    using scenario_all_front_pins[OF sample_page_ok p c] by blast
  have "clk s' (dial_name Front Centre) = Some ''01''" "clk s' (dial_name Back (Corner UL)) = Some ''11''"
    "clk s' (dial_name Back Centre) = Some ''12''"
    using v by simp_all
  moreover have "dial_name Front Centre = ''cc''" "dial_name Back (Corner UL) = ''bcul''"
    "dial_name Back Centre = ''bcc''" by (simp_all add: dial_name_def face_prefix_def)
  ultimately show ?thesis using s' by auto
qed

theorem scramble_seven_not_solved_witness:
  "\<exists>s'. scramble_click sample_page (\<lambda>i. 1 / 2) = Inr s' \<and> isSolved s' = Inr False"
proof -
  have "\<exists>s'. scramble_click sample_page (\<lambda>i. 1 / 2) = Inr s' \<and> isSolved s' = Inr False
      \<and> \<not> solved (abs_puzzle s')"
    by (rule scramble_seven_not_solved[OF sample_page_ok, of "\<lambda>i. 1 / 2" 0]) (simp_all add: clkNames_def)
  then show ?thesis by blast
qed

theorem reachable_solve_witness:
  "\<exists>s s'. script_run sample_doc = Inr s \<and> dispatch s ClickSolve = Inr s' \<and> isSolved s' = Inr True"
proof -
  obtain s where s: "script_run sample_doc = Inr s"
    using script_run_result[OF html_ok_load_ids[OF sample_html_ok]] by blast
  have "reachable s" using reachable.load[OF sample_html_ok s] .
  then show ?thesis using reachable_solve s by blast
qed

theorem feature_buttons_release_focus_witness:
  "\<exists>s s'. script_run sample_doc = Inr s \<and> dispatch s ClickSolve = Inr s' \<and> activeElement s' = None"
proof -
  obtain s where s: "script_run sample_doc = Inr s"
    using script_run_result[OF html_ok_load_ids[OF sample_html_ok]] by blast
  have "reachable s" using reachable.load[OF sample_html_ok s] .
  then show ?thesis using feature_buttons_release_focus[of s ClickSolve] s by blast
qed

theorem click_terminates_witness:
  "click 1 button_onclicks sample_page ''bbulp'' = None \<and> click 2 button_onclicks sample_page ''bbulp'' \<noteq> None"
  using click_terminates[of 1 sample_page "''bbulp''"] click_terminates[of 2 sample_page "''bbulp''"]
  by (simp add: btnNames_def)

theorem button_onclicks_typed_witness:
  "button_onclicks ''bbulp'' = Some (BackOnclick ''bbulp'')"
  by (subst button_onclicks_typed) (simp add: btnNames_def button_onclicks_eq)

theorem button_click_keeps_focus_witness:
  "\<exists>s s'. script_run sample_doc = Inr s \<and> dispatch s (ClickButton ''bulp'') = Inr s'
    \<and> activeElement s' = Some ''bulp''"
proof -
  obtain s where s: "script_run sample_doc = Inr s"
    using script_run_result[OF html_ok_load_ids[OF sample_html_ok]] by blast
  have "reachable s" using reachable.load[OF sample_html_ok s] .
  moreover have "''bulp'' \<in> set btnNames" by (simp add: btnNames_def)
  ultimately show ?thesis using button_click_keeps_focus s by blast
qed

end
